theory Spec2Isabelle
  imports Main "HOL-Library.AList"
begin

section \<open>The tracking script (src/tracker/index.js)\<close>

text \<open>
  The script is one closure over the browser window. Its constants (read once when the script
  is loaded) are functions of an environment record; its \<open>let\<close> variables and the effects it
  has on the page (requests handed to \<open>fetch\<close>, timers, installed hooks and listeners) are the
  fields of a state record. An \<open>async\<close> function is split where it awaits: the part up to the
  \<open>fetch\<close> call runs with the caller, the part after it runs when the response arrives, and
  other calls may run in between.
\<close>

subsection \<open>JavaScript values\<close>

text \<open>
  Values as far as the script inspects them. Numbers are restricted to integers (no fractions,
  no NaN); objects are the lists of their own enumerable properties, in order.
\<close>

datatype jsval =
    JUndefined
  | JNull
  | JBool bool
  | JNum int
  | JStr string
  | JArr "jsval list"
  | JObj "(string \<times> jsval) list"

text \<open>An argument of the public API is a value or a function; \<open>None\<close> is a function that throws.\<close>

datatype jsarg = Val jsval | Fun "jsval \<Rightarrow> jsval option"

fun truthy :: "jsval \<Rightarrow> bool" where
  "truthy JUndefined = False"
| "truthy JNull = False"
| "truthy (JBool b) = b"
| "truthy (JNum n) = (n \<noteq> 0)"
| "truthy (JStr s) = (s \<noteq> [])"
| "truthy (JArr xs) = True"
| "truthy (JObj kvs) = True"

text \<open>\<open>a || b\<close>\<close>

definition js_or :: "jsval \<Rightarrow> jsval \<Rightarrow> jsval" where
  "js_or a b = (if truthy a then a else b)"

text \<open>
  \<open>v.k\<close> for a property name \<open>k\<close> that is neither an array index nor a built-in member: an own
  property of an object, \<open>undefined\<close> on every other value the script reads from (it never reads
  from \<open>undefined\<close> or \<open>null\<close>).
\<close>

fun get_prop :: "jsval \<Rightarrow> string \<Rightarrow> jsval" where
  "get_prop (JObj kvs) k = (case map_of kvs k of None \<Rightarrow> JUndefined | Some v \<Rightarrow> v)"
| "get_prop v k = JUndefined"

fun typeof :: "jsarg \<Rightarrow> string" where
  "typeof (Fun f) = ''function''"
| "typeof (Val JUndefined) = ''undefined''"
| "typeof (Val JNull) = ''object''"
| "typeof (Val (JBool b)) = ''boolean''"
| "typeof (Val (JNum n)) = ''number''"
| "typeof (Val (JStr s)) = ''string''"
| "typeof (Val (JArr xs)) = ''object''"
| "typeof (Val (JObj kvs)) = ''object''"

text \<open>Decimal numerals, for template strings and array indices.\<close>

definition digit_char :: "nat \<Rightarrow> char" where
  "digit_char d = ''0123456789'' ! d"

fun digits :: "nat \<Rightarrow> string" where
  "digits n = (if n < 10 then [digit_char n] else digits (n div 10) @ [digit_char (n mod 10)])"

declare digits.simps [simp del]

text \<open>\<open>{...v}\<close>: the own enumerable properties that a spread copies.\<close>

fun spread :: "jsval \<Rightarrow> (string \<times> jsval) list" where
  "spread (JObj kvs) = kvs"
| "spread (JArr xs) = zip (map digits [0..<length xs]) xs"
| "spread (JStr s) = zip (map digits [0..<length s]) (map (\<lambda>ch. JStr [ch]) s)"
| "spread v = []"

text \<open>A property written after a spread in an object literal: replaced in place, or appended.\<close>

definition set_prop :: "(string \<times> jsval) list \<Rightarrow> string \<Rightarrow> jsval \<Rightarrow> (string \<times> jsval) list" where
  "set_prop kvs k v = AList.update k v kvs"

text \<open>\<open>getAttribute\<close> gives \<open>null\<close> or a string.\<close>

fun of_attr :: "string option \<Rightarrow> jsval" where
  "of_attr None = JNull"
| "of_attr (Some s) = JStr s"

subsection \<open>Strings\<close>

definition startsWith :: "string \<Rightarrow> string \<Rightarrow> bool" where
  "startsWith s p = (take (length p) s = p)"

fun split_on :: "char \<Rightarrow> string \<Rightarrow> string list" where
  "split_on c [] = [[]]"
| "split_on c (x # xs) =
     (if x = c then [] # split_on c xs
      else (case split_on c xs of [] \<Rightarrow> [[x]] | p # ps \<Rightarrow> (x # p) # ps))"

fun join :: "string \<Rightarrow> string list \<Rightarrow> string" where
  "join sep [] = []"
| "join sep [p] = p"
| "join sep (p # q # ps) = p @ sep @ join sep (q # ps)"

text \<open>
  A string is the list of its code units, and the model covers the strings whose code units
  are below 256. Among these, \<open>String.prototype.trim\<close> strips the white space and line
  terminators U+0009 to U+000D, U+0020 and U+00A0.
\<close>

definition is_space :: "char \<Rightarrow> bool" where
  "is_space ch =
     (ch \<in> set [CHR 0x09, CHR 0x0A, CHR 0x0B, CHR 0x0C, CHR 0x0D, CHR 0x20, CHR 0xA0])"

definition trim :: "string \<Rightarrow> string" where
  "trim s = rev (dropWhile is_space (rev (dropWhile is_space s)))"

text \<open>\<open>s.replace(/\/$/, '')\<close>\<close>

definition strip_slash :: "string \<Rightarrow> string" where
  "strip_slash s = (if s \<noteq> [] \<and> last s = CHR ''/'' then butlast s else s)"

subsection \<open>The window when the script is loaded\<close>

text \<open>
  A parsed URL, as far as the script touches it: \<open>search\<close> and \<open>hash\<close> carry their leading
  \<open>?\<close> and \<open>#\<close> and are empty when absent; the rest of the \<open>href\<close> is \<open>url_prefix\<close>.
\<close>

record url =
  url_prefix :: string
  url_search :: string
  url_hash :: string

definition toString :: "url \<Rightarrow> string" where
  "toString u = url_prefix u @ url_search u @ url_hash u"

text \<open>
  \<open>attrs\<close> are the attributes of the script tag. \<open>globals n\<close> is \<open>window[n]\<close> when that is a
  function (\<open>None\<close> otherwise); the function gives \<open>None\<close> when it throws. \<open>URL_new u b\<close> is the
  platform's \<open>new URL(u, b)\<close>, \<open>None\<close> when it throws. \<open>collectApiHost\<close> and
  \<open>collectApiEndpoint\<close> are the strings that the build puts in place of
  \<open>__COLLECT_API_HOST__\<close> and \<open>__COLLECT_API_ENDPOINT__\<close>.
\<close>

record env =
  attrs :: "string \<Rightarrow> string option"
  width :: nat
  height :: nat
  language :: string
  doNotTrack :: jsval
  ndnt :: jsval
  msdnt :: jsval
  hostname :: string
  href :: string
  origin :: string
  referrer :: string
  scriptSrc :: string
  globals :: "string \<Rightarrow> (string \<Rightarrow> jsval \<Rightarrow> jsval option) option"
  URL_new :: "string \<Rightarrow> string \<Rightarrow> url option"
  collectApiHost :: string
  collectApiEndpoint :: string

definition attr :: "env \<Rightarrow> string \<Rightarrow> string option" where
  "attr w n = attrs w n"

definition website :: "env \<Rightarrow> string option" where
  "website w = attr w ''data-website-id''"

definition hostUrl :: "env \<Rightarrow> string option" where
  "hostUrl w = attr w ''data-host-url''"

definition beforeSend :: "env \<Rightarrow> string option" where
  "beforeSend w = attr w ''data-before-send''"

text \<open>\<open>attr(...) || undefined\<close>\<close>

definition tag :: "env \<Rightarrow> jsval" where
  "tag w = js_or (of_attr (attr w ''data-tag'')) JUndefined"

definition autoTrack :: "env \<Rightarrow> bool" where
  "autoTrack w = (attr w ''data-auto-track'' \<noteq> Some ''false'')"

definition dnt :: "env \<Rightarrow> bool" where
  "dnt w = (attr w ''data-do-not-track'' = Some ''true'')"

definition excludeSearch :: "env \<Rightarrow> bool" where
  "excludeSearch w = (attr w ''data-exclude-search'' = Some ''true'')"

definition excludeHash :: "env \<Rightarrow> bool" where
  "excludeHash w = (attr w ''data-exclude-hash'' = Some ''true'')"

text \<open>\<open>attr(...) || ''\<close>\<close>

definition domain :: "env \<Rightarrow> string" where
  "domain w = (case attr w ''data-domains'' of None \<Rightarrow> [] | Some s \<Rightarrow> s)"

definition domains :: "env \<Rightarrow> string list" where
  "domains w = map trim (split_on CHR '','' (domain w))"

definition host :: "env \<Rightarrow> string" where
  "host w =
     (case hostUrl w of
        Some h \<Rightarrow> if h \<noteq> [] then h
                  else if collectApiHost w \<noteq> [] then collectApiHost w
                  else join ''/'' (butlast (split_on CHR ''/'' (scriptSrc w)))
      | None \<Rightarrow> if collectApiHost w \<noteq> [] then collectApiHost w
                else join ''/'' (butlast (split_on CHR ''/'' (scriptSrc w))))"

definition endpoint :: "env \<Rightarrow> string" where
  "endpoint w = strip_slash (host w) @ collectApiEndpoint w"

definition screen :: "env \<Rightarrow> string" where
  "screen w = digits (width w) @ ''x'' @ digits (height w)"

text \<open>\<open>window[beforeSend]\<close>; a \<open>null\<close> key reads the property named \<open>null\<close>.\<close>

definition callback :: "env \<Rightarrow> (string \<Rightarrow> jsval \<Rightarrow> jsval option) option" where
  "callback w = globals w (case beforeSend w of None \<Rightarrow> ''null'' | Some n \<Rightarrow> n)"

definition hasDoNotTrack :: "env \<Rightarrow> bool" where
  "hasDoNotTrack w =
     (let d = js_or (js_or (doNotTrack w) (ndnt w)) (msdnt w)
      in d = JNum 1 \<or> d = JStr ''1'' \<or> d = JStr ''yes'')"

subsection \<open>State\<close>

text \<open>
  What is handed to \<open>fetch\<close>. \<open>req_body\<close> is the value given to \<open>JSON.stringify\<close>, which
  writes an object without the properties whose value is \<open>undefined\<close>; a header value is
  the value put into the \<open>headers\<close> object.
\<close>

record request =
  req_url :: string
  req_keepalive :: bool
  req_method :: string
  req_body :: jsval
  req_headers :: "(string \<times> jsval) list"
  req_credentials :: string

text \<open>
  The script's variables (\<open>currentUrl\<close> to \<open>identity\<close>), the parts of the page it reads each
  time (\<open>location.href\<close>, \<open>document.title\<close>, local storage), and its effects: the requests
  issued so far, how many of them are still awaiting their response, the pending
  \<open>setTimeout(track, delayDuration)\<close> timers, whether \<open>init\<close> listens to \<open>readystatechange\<close>,
  how many times the history methods have been wrapped and how many click listeners are
  registered. \<open>initTracks\<close> counts the calls of \<open>track\<close> made by \<open>init\<close>.
\<close>

record state =
  currentUrl :: string
  currentRef :: string
  initialized :: bool
  disabled :: bool
  cache :: jsval
  identity :: "string option"
  location_href :: string
  title :: string
  storage :: "string \<Rightarrow> string option"
  requests :: "request list"
  pending :: nat
  timers :: nat
  listening :: bool
  pathHooks :: nat
  clickListeners :: nat
  initTracks :: nat

text \<open>The outcome of a call, for its caller.\<close>

datatype outcome =
    Threw      \<comment> \<open>an exception left the call\<close>
  | Rejected   \<comment> \<open>a promise was returned and is rejected\<close>
  | Fulfilled  \<comment> \<open>a promise was returned and is fulfilled\<close>
  | Awaiting   \<comment> \<open>a promise was returned and waits for the response\<close>

datatype fetch_result =
    NetworkError     \<comment> \<open>\<open>fetch\<close> rejects\<close>
  | BadJson          \<comment> \<open>\<open>res.json()\<close> rejects\<close>
  | Json jsval       \<comment> \<open>the parsed response body\<close>

subsection \<open>Helper functions\<close>

definition getPayload :: "env \<Rightarrow> state \<Rightarrow> jsval" where
  "getPayload w s = JObj
     [(''website'', of_attr (website w)),
      (''screen'', JStr (screen w)),
      (''language'', JStr (language w)),
      (''title'', JStr (title s)),
      (''hostname'', JStr (hostname w)),
      (''url'', JStr (currentUrl s)),
      (''referrer'', JStr (currentRef s)),
      (''tag'', tag w),
      (''id'', (case identity s of
                  None \<Rightarrow> JUndefined
                | Some i \<Rightarrow> if i \<noteq> [] then JStr i else JUndefined))]"

subsection \<open>Tracking functions\<close>

definition localStorage :: "env \<Rightarrow> state \<Rightarrow> (string \<Rightarrow> string option) option" where
  "localStorage w s = (if startsWith (href w) ''data:'' then None else Some (storage s))"

definition trackingDisabled :: "env \<Rightarrow> state \<Rightarrow> bool" where
  "trackingDisabled w s =
     (disabled s \<or>
      \<not> truthy (of_attr (website w)) \<or>
      (case localStorage w s of
         None \<Rightarrow> False
       | Some ls \<Rightarrow> truthy (of_attr (ls ''umami.disabled''))) \<or>
      (domain w \<noteq> [] \<and> hostname w \<notin> set (domains w)) \<or>
      (dnt w \<and> hasDoNotTrack w))"

definition mk_request :: "env \<Rightarrow> state \<Rightarrow> string \<Rightarrow> jsval \<Rightarrow> request" where
  "mk_request w s type payload =
     \<lparr>req_url = endpoint w,
      req_keepalive = True,
      req_method = ''POST'',
      req_body = JObj [(''type'', JStr type), (''payload'', payload)],
      req_headers =
        (''Content-Type'', JStr ''application/json'') #
        (if cache s \<noteq> JUndefined then [(''x-umami-cache'', cache s)] else []),
      req_credentials = ''omit''\<rparr>"

text \<open>\<open>send\<close> up to the point where it awaits \<open>fetch\<close>.\<close>

definition send :: "env \<Rightarrow> state \<Rightarrow> jsval \<Rightarrow> string \<Rightarrow> state \<times> outcome" where
  "send w s payload type =
     (if trackingDisabled w s then (s, Fulfilled)
      else
        (case (case callback w of None \<Rightarrow> Some payload | Some f \<Rightarrow> f type payload) of
           None \<Rightarrow> (s, Rejected)
         | Some p \<Rightarrow>
             if \<not> truthy p then (s, Fulfilled)
             else (s\<lparr>requests := requests s @ [mk_request w s type p],
                     pending := pending s + 1\<rparr>, Awaiting)))"

text \<open>The body of the \<open>try\<close> block after \<open>fetch\<close> was called; \<open>None\<close> when it throws.\<close>

fun send_try :: "state \<Rightarrow> fetch_result \<Rightarrow> state option" where
  "send_try s NetworkError = None"
| "send_try s BadJson = None"
| "send_try s (Json d) =
     Some (if truthy d
           then s\<lparr>disabled := truthy (get_prop d ''disabled''), cache := get_prop d ''cache''\<rparr>
           else s)"

text \<open>The rest of \<open>send\<close>, run when the response (or the failure) arrives.\<close>

definition send_resume :: "state \<Rightarrow> fetch_result \<Rightarrow> state \<times> outcome" where
  "send_resume s r =
     (case send_try s r of
        Some s' \<Rightarrow> (s', Fulfilled)
      | None \<Rightarrow> (s, Fulfilled))"

definition track :: "env \<Rightarrow> state \<Rightarrow> jsarg \<Rightarrow> jsval \<Rightarrow> state \<times> outcome" where
  "track w s name data =
     (case name of
        Val (JStr n) \<Rightarrow>
          send w s (JObj (set_prop (set_prop (spread (getPayload w s)) ''name'' (JStr n))
                            ''data'' data)) ''event''
      | Val v \<Rightarrow>
          if typeof name = ''object'' then send w s (JObj (spread v)) ''event''
          else send w s (getPayload w s) ''event''
      | Fun f \<Rightarrow>
          (case f (getPayload w s) of
             None \<Rightarrow> (s, Threw)
           | Some p \<Rightarrow> send w s p ''event''))"

definition identify :: "env \<Rightarrow> state \<Rightarrow> jsarg \<Rightarrow> jsval \<Rightarrow> state \<times> outcome" where
  "identify w s ident data =
     (let s1 = (case ident of Val (JStr i) \<Rightarrow> s\<lparr>identity := Some i\<rparr> | _ \<Rightarrow> s);
          s2 = s1\<lparr>cache := JStr []\<rparr>
      in send w s2
           (JObj (set_prop (spread (getPayload w s2)) ''data''
                    (case ident of
                       Val v \<Rightarrow> if typeof ident = ''object'' then v else data
                     | Fun f \<Rightarrow> data)))
           ''identify'')"

subsection \<open>Event handlers\<close>

text \<open>
  The URL argument is a string, or \<open>None\<close> when it is \<open>undefined\<close> or \<open>null\<close>. The second
  component of the result tells whether the handler returned; it is \<open>False\<close> when
  \<open>new URL\<close> threw, after \<open>currentRef\<close> was already overwritten.
\<close>

definition handlePush :: "env \<Rightarrow> state \<Rightarrow> string option \<Rightarrow> state \<times> bool" where
  "handlePush w s url =
     (case url of
        None \<Rightarrow> (s, True)
      | Some u \<Rightarrow>
          if u = [] then (s, True)
          else
            (let s1 = s\<lparr>currentRef := currentUrl s\<rparr> in
             case URL_new w u (location_href s1) of
               None \<Rightarrow> (s1, False)
             | Some p \<Rightarrow>
                 (let p1 = (if excludeSearch w then p\<lparr>url_search := []\<rparr> else p);
                      p2 = (if excludeHash w then p1\<lparr>url_hash := []\<rparr> else p1);
                      s2 = s1\<lparr>currentUrl := toString p2\<rparr>
                  in (if currentUrl s2 \<noteq> currentRef s2
                      then s2\<lparr>timers := timers s2 + 1\<rparr>
                      else s2, True))))"

definition handlePathChanges :: "state \<Rightarrow> state" where
  "handlePathChanges s = s\<lparr>pathHooks := pathHooks s + 1\<rparr>"

definition handleClicks :: "state \<Rightarrow> state" where
  "handleClicks s = s\<lparr>clickListeners := clickListeners s + 1\<rparr>"

definition init :: "env \<Rightarrow> state \<Rightarrow> state" where
  "init w s =
     (if \<not> initialized s then
        (let s1 = s\<lparr>initialized := True, initTracks := initTracks s + 1\<rparr>;
             s2 = fst (track w s1 (Val JUndefined) JUndefined)
         in handleClicks (handlePathChanges s2))
      else s)"

subsection \<open>Start\<close>

definition initState :: "env \<Rightarrow> string \<Rightarrow> (string \<Rightarrow> string option) \<Rightarrow> state" where
  "initState w ttl st =
     \<lparr>currentUrl = href w,
      currentRef = (if startsWith (referrer w) (origin w) then [] else referrer w),
      initialized = False,
      disabled = False,
      cache = JUndefined,
      identity = None,
      location_href = href w,
      title = ttl,
      storage = st,
      requests = [],
      pending = 0,
      timers = 0,
      listening = False,
      pathHooks = 0,
      clickListeners = 0,
      initTracks = 0\<rparr>"

text \<open>
  The end of the script, for a page on which \<open>document.currentScript\<close> exists (without it
  the script returns at once): \<open>complete\<close> tells whether \<open>document.readyState\<close> is
  \<open>complete\<close>. The page reaches \<open>track\<close> and \<open>identify\<close> through \<open>window.umami\<close>.
\<close>

definition start :: "env \<Rightarrow> string \<Rightarrow> (string \<Rightarrow> string option) \<Rightarrow> bool \<Rightarrow> state" where
  "start w ttl st complete =
     (let s = initState w ttl st in
      if autoTrack w \<and> \<not> trackingDisabled w s then
        (if complete then init w s else s\<lparr>listening := True\<rparr>)
      else s)"

subsection \<open>What happens on the page afterwards\<close>

text \<open>
  A wrapped history method calls \<open>handlePush\<close> once for each wrapping and then the original
  method; an exception from \<open>handlePush\<close> ends the call.
\<close>

fun hooked :: "env \<Rightarrow> nat \<Rightarrow> state \<Rightarrow> string option \<Rightarrow> state \<times> bool" where
  "hooked w 0 s url = (s, True)"
| "hooked w (Suc n) s url =
     (case handlePush w s url of
        (s', True) \<Rightarrow> hooked w n s' url
      | (s', False) \<Rightarrow> (s', False))"

text \<open>The browser's own \<open>pushState\<close> and \<open>replaceState\<close>, as far as the script can see them.\<close>

definition history_orig :: "env \<Rightarrow> state \<Rightarrow> string option \<Rightarrow> state" where
  "history_orig w s url =
     (case url of
        None \<Rightarrow> s
      | Some u \<Rightarrow>
          (case URL_new w u (location_href s) of
             None \<Rightarrow> s
           | Some p \<Rightarrow> s\<lparr>location_href := toString p\<rparr>))"

definition history_call :: "env \<Rightarrow> state \<Rightarrow> string option \<Rightarrow> state" where
  "history_call w s url =
     (case hooked w (pathHooks s) s url of
        (s', True) \<Rightarrow> history_orig w s' url
      | (s', False) \<Rightarrow> s')"

datatype event =
    Track jsarg jsval          \<comment> \<open>\<open>umami.track(name, data)\<close>, also from a click\<close>
  | Identify jsarg jsval       \<comment> \<open>\<open>umami.identify(id, data)\<close>\<close>
  | PushState "string option"  \<comment> \<open>\<open>history.pushState(_, _, url)\<close>\<close>
  | ReplaceState "string option"
  | Timeout                    \<comment> \<open>a timer set by \<open>handlePush\<close> fires\<close>
  | ReadyStateChange
  | Response fetch_result      \<comment> \<open>a request that was awaiting its response gets it\<close>
  | SetTitle string
  | SetItem string "string option"

fun step :: "env \<Rightarrow> state \<Rightarrow> event \<Rightarrow> state" where
  "step w s (Track name data) = fst (track w s name data)"
| "step w s (Identify ident data) = fst (identify w s ident data)"
| "step w s (PushState url) = history_call w s url"
| "step w s (ReplaceState url) = history_call w s url"
| "step w s Timeout =
     (if timers s = 0 then s
      else fst (track w (s\<lparr>timers := timers s - 1\<rparr>) (Val JUndefined) JUndefined))"
| "step w s ReadyStateChange = (if listening s then init w s else s)"
| "step w s (Response r) =
     (if pending s = 0 then s
      else fst (send_resume (s\<lparr>pending := pending s - 1\<rparr>) r))"
| "step w s (SetTitle t) = s\<lparr>title := t\<rparr>"
| "step w s (SetItem k v) = s\<lparr>storage := (storage s)(k := v)\<rparr>"

definition run :: "env \<Rightarrow> state \<Rightarrow> event list \<Rightarrow> state" where
  "run w s evs = foldl (step w) s evs"

subsection \<open>Auxiliary notions\<close>

text \<open>The requests issued between two states of one page.\<close>

definition emitted :: "state \<Rightarrow> state \<Rightarrow> request list" where
  "emitted s s' = drop (length (requests s)) (requests s')"

text \<open>
  Two states that differ at most in what \<open>handlePush\<close> and the history methods write: the
  tracked URL and referrer, the pending timers and the location.
\<close>

definition nav_eq :: "state \<Rightarrow> state \<Rightarrow> bool" where
  "nav_eq s s' =
     (s' = s\<lparr>currentUrl := currentUrl s', currentRef := currentRef s', timers := timers s',
             location_href := location_href s'\<rparr>)"

text \<open>The responses that write a falsy value to \<open>disabled\<close>.\<close>

fun enables :: "event \<Rightarrow> bool" where
  "enables (Response (Json d)) = (truthy d \<and> \<not> truthy (get_prop d ''disabled''))"
| "enables e = False"

text \<open>
  The events that assign \<open>cache\<close>: a call of \<open>identify\<close>, and a response whose body is
  truthy.
\<close>

fun writes_cache :: "event \<Rightarrow> bool" where
  "writes_cache (Identify i d) = True"
| "writes_cache (Response (Json d)) = truthy d"
| "writes_cache e = False"

text \<open>The events whose requests carry a payload that the tracker builds from \<open>getPayload\<close>.\<close>

fun builds_payload :: "event \<Rightarrow> bool" where
  "builds_payload (Track name d) = (typeof name \<noteq> ''object'' \<and> typeof name \<noteq> ''function'')"
| "builds_payload e = True"

text \<open>The events that assign \<open>identity\<close>.\<close>

fun sets_identity :: "event \<Rightarrow> bool" where
  "sets_identity (Identify (Val (JStr i)) d) = True"
| "sets_identity e = False"

text \<open>
  What holds of every state of a page: \<open>init\<close> has done its work once or not at all, and
  until it has, nothing has touched the tracked URL and referrer.
\<close>

definition page_inv :: "env \<Rightarrow> state \<Rightarrow> bool" where
  "page_inv w s =
     (if initialized s
      then initTracks s = 1 \<and> pathHooks s = 1 \<and> clickListeners s = 1
      else initTracks s = 0 \<and> pathHooks s = 0 \<and> clickListeners s = 0 \<and> timers s = 0 \<and>
           currentUrl s = href w \<and>
           currentRef s = (if startsWith (referrer w) (origin w) then [] else referrer w))"

subsection \<open>An example page\<close>

text \<open>
  Concrete inputs on which the statements below are evaluated. \<open>example_URL\<close> stands for
  \<open>new URL\<close> on absolute URLs without credentials or dot segments: it cuts the string at the
  first \<open>?\<close> and the first \<open>#\<close>.
\<close>

definition example_URL :: "string \<Rightarrow> string \<Rightarrow> url option" where
  "example_URL u b =
     (let rest = dropWhile (\<lambda>ch. ch \<noteq> CHR ''?'' \<and> ch \<noteq> CHR ''#'') u
      in Some \<lparr>url_prefix = takeWhile (\<lambda>ch. ch \<noteq> CHR ''?'' \<and> ch \<noteq> CHR ''#'') u,
               url_search = takeWhile (\<lambda>ch. ch \<noteq> CHR ''#'') rest,
               url_hash = dropWhile (\<lambda>ch. ch \<noteq> CHR ''#'') rest\<rparr>)"

definition example_env :: env where
  "example_env =
     \<lparr>attrs = [''data-website-id'' \<mapsto> ''site-1''],
      width = 1920,
      height = 1080,
      language = ''en-US'',
      doNotTrack = JUndefined,
      ndnt = JNull,
      msdnt = JUndefined,
      hostname = ''example.com'',
      href = ''https://example.com/app?x=1#top'',
      origin = ''https://example.com'',
      referrer = ''https://search.example.org/'',
      scriptSrc = ''https://stats.example.com/script.js'',
      globals = (\<lambda>n. None),
      URL_new = example_URL,
      collectApiHost = [],
      collectApiEndpoint = ''/api/send''\<rparr>"

text \<open>The same page with a script tag that has no \<open>data-website-id\<close>.\<close>

definition nosite_env :: env where
  "nosite_env = example_env\<lparr>attrs := Map.empty\<rparr>"

definition example_state :: state where
  "example_state = initState example_env ''Home'' Map.empty"


definition echo_fn :: "jsval \<Rightarrow> jsval option" where
  "echo_fn p = Some p"





text \<open>The same page with both URL exclusions switched on.\<close>

definition strip_env :: env where
  "strip_env = example_env
     \<lparr>attrs := [''data-website-id'' \<mapsto> ''site-1'', ''data-exclude-search'' \<mapsto> ''true'',
                ''data-exclude-hash'' \<mapsto> ''true'']\<rparr>"

text \<open>The same page reached from another page of its own origin.\<close>

definition sameorigin_env :: env where
  "sameorigin_env = example_env\<lparr>referrer := ''https://example.com/prev''\<rparr>"

section \<open>Properties\<close>

subsection \<open>Basic facts about the functions\<close>

lemmas model_defs =
  run_def start_def initState_def init_def track_def identify_def send_def send_resume_def
  trackingDisabled_def localStorage_def getPayload_def mk_request_def handlePush_def
  handlePathChanges_def handleClicks_def history_call_def history_orig_def
  website_def hostUrl_def beforeSend_def tag_def autoTrack_def dnt_def excludeSearch_def
  excludeHash_def domain_def domains_def host_def endpoint_def screen_def callback_def
  hasDoNotTrack_def attr_def js_or_def set_prop_def startsWith_def toString_def
  strip_slash_def emitted_def Let_def

lemma send_disabled: "trackingDisabled w s \<Longrightarrow> send w s p t = (s, Fulfilled)"
  by (simp add: send_def)

lemma track_disabled: "trackingDisabled w s \<Longrightarrow> fst (track w s n d) = s"
  by (auto simp: track_def send_disabled split: jsarg.splits jsval.splits option.splits)

lemma nav_eq_refl: "nav_eq s s"
  by (simp add: nav_eq_def)

lemma nav_eq_trans: "nav_eq s t \<Longrightarrow> nav_eq t u \<Longrightarrow> nav_eq s u"
  unfolding nav_eq_def
  by (cases s, cases t, cases u) simp

lemma nav_eq_fields:
  assumes "nav_eq s s'"
  shows "requests s' = requests s" "pending s' = pending s" "disabled s' = disabled s"
    "cache s' = cache s" "identity s' = identity s" "initialized s' = initialized s"
    "pathHooks s' = pathHooks s" "clickListeners s' = clickListeners s"
    "initTracks s' = initTracks s" "listening s' = listening s" "storage s' = storage s"
    "title s' = title s"
  using assms unfolding nav_eq_def by (cases s, cases s', simp)+

lemma nav_eq_handlePush: "nav_eq s (fst (handlePush w s url))"
  by (auto simp: handlePush_def nav_eq_def Let_def split: option.splits)

lemma nav_eq_hooked: "nav_eq s (fst (hooked w n s url))"
proof (induction n arbitrary: s)
  case 0
  show ?case by (simp add: nav_eq_refl)
next
  case (Suc n)
  obtain s' ok where hp: "handlePush w s url = (s', ok)"
    by (cases "handlePush w s url")
  have a: "nav_eq s s'"
    using nav_eq_handlePush[of s w url] hp by simp
  show ?case
  proof (cases ok)
    case True
    then show ?thesis
      using hp a Suc.IH[of s'] by (auto intro: nav_eq_trans)
  next
    case False
    then show ?thesis
      using hp a by simp
  qed
qed

lemma nav_eq_history_orig: "nav_eq s (history_orig w s url)"
  by (auto simp: history_orig_def nav_eq_def split: option.splits)

lemma nav_eq_history_call: "nav_eq s (history_call w s url)"
proof -
  obtain s' ok where h: "hooked w (pathHooks s) s url = (s', ok)"
    by (cases "hooked w (pathHooks s) s url")
  have a: "nav_eq s s'"
    using nav_eq_hooked[of s w "pathHooks s" url] h by simp
  show ?thesis
  proof (cases ok)
    case True
    then show ?thesis
      using h a nav_eq_history_orig[of s' w url]
      by (auto simp: history_call_def intro: nav_eq_trans)
  next
    case False
    then show ?thesis
      using h a by (simp add: history_call_def)
  qed
qed

lemma trackingDisabled_nav: "nav_eq s s' \<Longrightarrow> trackingDisabled w s' = trackingDisabled w s"
  by (simp add: trackingDisabled_def localStorage_def nav_eq_fields)

lemma send_resume_requests: "requests (fst (send_resume s r)) = requests s"
  by (cases r) (auto simp: send_resume_def)

subsection \<open>What each function changes\<close>

lemma emitted_self: "emitted s s = []"
  by (simp add: emitted_def)

lemma send_emitted:
  "emitted s (fst (send w s p t)) = [] \<or>
   (\<exists>q. truthy q \<and> \<not> trackingDisabled w s \<and>
        (case callback w of None \<Rightarrow> Some p | Some f \<Rightarrow> f t p) = Some q \<and>
        emitted s (fst (send w s p t)) = [mk_request w s t q])"
  by (auto simp: send_def emitted_def split: option.splits)

lemma send_fields:
  "cache (fst (send w s p t)) = cache s" "disabled (fst (send w s p t)) = disabled s"
  "identity (fst (send w s p t)) = identity s" "initialized (fst (send w s p t)) = initialized s"
  "pathHooks (fst (send w s p t)) = pathHooks s"
  "clickListeners (fst (send w s p t)) = clickListeners s"
  "initTracks (fst (send w s p t)) = initTracks s" "currentUrl (fst (send w s p t)) = currentUrl s"
  "currentRef (fst (send w s p t)) = currentRef s" "timers (fst (send w s p t)) = timers s"
  "listening (fst (send w s p t)) = listening s" "storage (fst (send w s p t)) = storage s"
  "title (fst (send w s p t)) = title s" "location_href (fst (send w s p t)) = location_href s"
  "requests (fst (send w s p t)) = requests s @ emitted s (fst (send w s p t))"
  by (auto simp: send_def emitted_def split: option.splits)

lemma track_send:
  "fst (track w s n d) = s \<or> (\<exists>p. fst (track w s n d) = fst (send w s p ''event''))"
  by (auto simp: track_def split: jsarg.splits jsval.splits option.splits)

lemma track_emitted:
  "emitted s (fst (track w s n d)) = [] \<or>
   (\<exists>q. truthy q \<and> \<not> trackingDisabled w s \<and>
        emitted s (fst (track w s n d)) = [mk_request w s ''event'' q])"
  using track_send[of w s n d] send_emitted[of s w _ "''event''"] emitted_self[of s]
  by metis

lemma track_fields:
  "cache (fst (track w s n d)) = cache s" "disabled (fst (track w s n d)) = disabled s"
  "identity (fst (track w s n d)) = identity s" "initialized (fst (track w s n d)) = initialized s"
  "pathHooks (fst (track w s n d)) = pathHooks s"
  "clickListeners (fst (track w s n d)) = clickListeners s"
  "initTracks (fst (track w s n d)) = initTracks s" "currentUrl (fst (track w s n d)) = currentUrl s"
  "currentRef (fst (track w s n d)) = currentRef s" "timers (fst (track w s n d)) = timers s"
  "listening (fst (track w s n d)) = listening s" "storage (fst (track w s n d)) = storage s"
  "title (fst (track w s n d)) = title s" "location_href (fst (track w s n d)) = location_href s"
  "requests (fst (track w s n d)) = requests s @ emitted s (fst (track w s n d))"
proof -
  have *: "Q (fst (track w s n d))" if "Q s" "\<And>p. Q (fst (send w s p ''event''))" for Q
    using track_send[of w s n d] that by (elim disjE exE) simp_all
  show "cache (fst (track w s n d)) = cache s"
    by (rule *) (simp_all add: send_fields)
  show "disabled (fst (track w s n d)) = disabled s"
    by (rule *) (simp_all add: send_fields)
  show "identity (fst (track w s n d)) = identity s"
    by (rule *) (simp_all add: send_fields)
  show "initialized (fst (track w s n d)) = initialized s"
    by (rule *) (simp_all add: send_fields)
  show "pathHooks (fst (track w s n d)) = pathHooks s"
    by (rule *) (simp_all add: send_fields)
  show "clickListeners (fst (track w s n d)) = clickListeners s"
    by (rule *) (simp_all add: send_fields)
  show "initTracks (fst (track w s n d)) = initTracks s"
    by (rule *) (simp_all add: send_fields)
  show "currentUrl (fst (track w s n d)) = currentUrl s"
    by (rule *) (simp_all add: send_fields)
  show "currentRef (fst (track w s n d)) = currentRef s"
    by (rule *) (simp_all add: send_fields)
  show "timers (fst (track w s n d)) = timers s"
    by (rule *) (simp_all add: send_fields)
  show "listening (fst (track w s n d)) = listening s"
    by (rule *) (simp_all add: send_fields)
  show "storage (fst (track w s n d)) = storage s"
    by (rule *) (simp_all add: send_fields)
  show "title (fst (track w s n d)) = title s"
    by (rule *) (simp_all add: send_fields)
  show "location_href (fst (track w s n d)) = location_href s"
    by (rule *) (simp_all add: send_fields)
  show "requests (fst (track w s n d)) = requests s @ emitted s (fst (track w s n d))"
    by (rule *) (simp_all add: send_fields(15)[symmetric] emitted_self)
qed

lemma identify_emitted:
  "emitted s (fst (identify w s i d)) = [] \<or>
   (\<exists>q s'. truthy q \<and> cache s' = JStr [] \<and>
        emitted s (fst (identify w s i d)) = [mk_request w s' ''identify'' q])"
proof -
  define s2 where
    "s2 = (case i of Val (JStr j) \<Rightarrow> s\<lparr>identity := Some j\<rparr> | _ \<Rightarrow> s)\<lparr>cache := JStr []\<rparr>"
  have r: "requests s2 = requests s"
    by (auto simp: s2_def split: jsarg.splits jsval.splits)
  have c: "cache s2 = JStr []"
    by (simp add: s2_def)
  obtain p where p: "identify w s i d = send w s2 p ''identify''"
    by (simp add: identify_def Let_def s2_def)
  have "emitted s (fst (send w s2 p ''identify'')) = emitted s2 (fst (send w s2 p ''identify''))"
    by (simp add: emitted_def r)
  then show ?thesis
    using send_emitted[of s2 w p "''identify''"] c p by metis
qed

lemma identify_fields:
  "cache (fst (identify w s i d)) = JStr []" "disabled (fst (identify w s i d)) = disabled s"
  "initialized (fst (identify w s i d)) = initialized s"
  "pathHooks (fst (identify w s i d)) = pathHooks s"
  "clickListeners (fst (identify w s i d)) = clickListeners s"
  "initTracks (fst (identify w s i d)) = initTracks s"
  "currentUrl (fst (identify w s i d)) = currentUrl s"
  "currentRef (fst (identify w s i d)) = currentRef s" "timers (fst (identify w s i d)) = timers s"
  "listening (fst (identify w s i d)) = listening s" "storage (fst (identify w s i d)) = storage s"
  "title (fst (identify w s i d)) = title s"
  "location_href (fst (identify w s i d)) = location_href s"
  "identity (fst (identify w s i d)) = (case i of Val (JStr j) \<Rightarrow> Some j | _ \<Rightarrow> identity s)"
proof -
  define s2 where
    "s2 = (case i of Val (JStr j) \<Rightarrow> s\<lparr>identity := Some j\<rparr> | _ \<Rightarrow> s)\<lparr>cache := JStr []\<rparr>"
  obtain p where p: "identify w s i d = send w s2 p ''identify''"
    by (simp add: identify_def Let_def s2_def)
  have s2: "s2 = s\<lparr>identity := (case i of Val (JStr j) \<Rightarrow> Some j | _ \<Rightarrow> identity s),
                  cache := JStr []\<rparr>"
    unfolding s2_def by (simp split: jsarg.splits jsval.splits)
  show
    "cache (fst (identify w s i d)) = JStr []" "disabled (fst (identify w s i d)) = disabled s"
    "initialized (fst (identify w s i d)) = initialized s"
    "pathHooks (fst (identify w s i d)) = pathHooks s"
    "clickListeners (fst (identify w s i d)) = clickListeners s"
    "initTracks (fst (identify w s i d)) = initTracks s"
    "currentUrl (fst (identify w s i d)) = currentUrl s"
    "currentRef (fst (identify w s i d)) = currentRef s" "timers (fst (identify w s i d)) = timers s"
    "listening (fst (identify w s i d)) = listening s" "storage (fst (identify w s i d)) = storage s"
    "title (fst (identify w s i d)) = title s"
    "location_href (fst (identify w s i d)) = location_href s"
    "identity (fst (identify w s i d)) = (case i of Val (JStr j) \<Rightarrow> Some j | _ \<Rightarrow> identity s)"
    unfolding p send_fields by (simp_all add: s2)
qed

lemma identify_requests:
  "requests (fst (identify w s i d)) = requests s @ emitted s (fst (identify w s i d))"
proof -
  define s2 where
    "s2 = (case i of Val (JStr j) \<Rightarrow> s\<lparr>identity := Some j\<rparr> | _ \<Rightarrow> s)\<lparr>cache := JStr []\<rparr>"
  have r: "requests s2 = requests s"
    by (auto simp: s2_def split: jsarg.splits jsval.splits)
  obtain p where p: "identify w s i d = send w s2 p ''identify''"
    by (simp add: identify_def Let_def s2_def)
  show ?thesis
    using send_fields(15)[of w s2 p "''identify''"] by (simp add: p r emitted_def)
qed

lemma init_fields:
  "cache (init w s) = cache s" "disabled (init w s) = disabled s"
  "identity (init w s) = identity s" "currentUrl (init w s) = currentUrl s"
  "currentRef (init w s) = currentRef s" "timers (init w s) = timers s"
  "listening (init w s) = listening s" "storage (init w s) = storage s"
  "title (init w s) = title s" "location_href (init w s) = location_href s"
  by (simp_all add: init_def Let_def track_fields handleClicks_def handlePathChanges_def)

lemma init_emitted:
  "emitted s (init w s) = [] \<or>
   (\<exists>q. truthy q \<and> \<not> initialized s \<and> \<not> trackingDisabled w s \<and>
        emitted s (init w s) = [mk_request w s ''event'' q])"
proof (cases "initialized s")
  case True
  then show ?thesis by (simp add: init_def emitted_self)
next
  case False
  let ?s1 = "s\<lparr>initialized := True, initTracks := initTracks s + 1\<rparr>"
  have e: "emitted s (init w s) = emitted ?s1 (fst (track w ?s1 (Val JUndefined) JUndefined))"
    using False by (simp add: init_def Let_def emitted_def handleClicks_def handlePathChanges_def)
  have m: "mk_request w ?s1 t q = mk_request w s t q" for t q
    by (simp add: mk_request_def)
  have d: "trackingDisabled w ?s1 = trackingDisabled w s"
    by (simp add: trackingDisabled_def localStorage_def)
  show ?thesis
    using track_emitted[of ?s1 w "Val JUndefined" JUndefined] False
    unfolding e m d by auto
qed

lemma init_requests: "requests (init w s) = requests s @ emitted s (init w s)"
proof (cases "initialized s")
  case True
  then show ?thesis by (simp add: init_def emitted_self)
next
  case False
  let ?s1 = "s\<lparr>initialized := True, initTracks := initTracks s + 1\<rparr>"
  let ?t = "fst (track w ?s1 (Val JUndefined) JUndefined)"
  have e: "emitted s (init w s) = emitted ?s1 ?t"
    using False by (simp add: init_def Let_def emitted_def handleClicks_def handlePathChanges_def)
  have "requests (init w s) = requests ?t"
    using False by (simp add: init_def Let_def handleClicks_def handlePathChanges_def)
  also have "\<dots> = requests ?s1 @ emitted ?s1 ?t"
    by (rule track_fields(15))
  finally show ?thesis
    by (simp add: e)
qed


lemma emitted_same: "requests s' = requests s \<Longrightarrow> emitted s s' = []"
  by (simp add: emitted_def)

lemma emitted_shift: "requests s = requests s0 \<Longrightarrow> emitted s0 s' = emitted s s'"
  by (simp add: emitted_def)

lemma mk_request_cache: "cache s' = cache s \<Longrightarrow> mk_request w s' t q = mk_request w s t q"
  by (simp add: mk_request_def)

lemma step_emitted:
  "emitted s (step w s e) = [] \<or>
   (\<exists>q t s'. truthy q \<and> (t = ''event'' \<or> t = ''identify'') \<and>
      (cache s' = cache s \<or> writes_cache e \<and> cache s' = JStr []) \<and>
      emitted s (step w s e) = [mk_request w s' t q])"
proof (cases e)
  case (Track n d)
  then show ?thesis
    using track_emitted[of s w n d] by auto
next
  case (Identify i d)
  then show ?thesis
    using identify_emitted[of s w i d] by auto
next
  case (PushState u)
  then show ?thesis
    by (simp add: emitted_same nav_eq_fields(1)[OF nav_eq_history_call])
next
  case (ReplaceState u)
  then show ?thesis
    by (simp add: emitted_same nav_eq_fields(1)[OF nav_eq_history_call])
next
  case Timeout
  let ?s1 = "s\<lparr>timers := timers s - 1\<rparr>"
  have e: "emitted s s' = emitted ?s1 s'" for s'
    by (rule emitted_shift) simp
  have c: "cache ?s1 = cache s"
    by simp
  show ?thesis
  proof (cases "timers s = 0")
    case True
    then show ?thesis using Timeout by (simp add: emitted_self)
  next
    case False
    then have "step w s e = fst (track w ?s1 (Val JUndefined) JUndefined)"
      using Timeout by simp
    then show ?thesis
      using track_emitted[of ?s1 w "Val JUndefined" JUndefined] c unfolding e by metis
  qed
next
  case ReadyStateChange
  then show ?thesis
    using init_emitted[of s w] by (auto simp: emitted_self)
next
  case (Response r)
  then show ?thesis
    by (simp add: emitted_same send_resume_requests)
next
  case (SetTitle t)
  then show ?thesis by (simp add: emitted_same)
next
  case (SetItem k v)
  then show ?thesis by (simp add: emitted_same)
qed

lemma step_requests: "requests (step w s e) = requests s @ emitted s (step w s e)"
proof (cases e)
  case (Track n d)
  then show ?thesis using track_fields(15)[of w s n d] by simp
next
  case (Identify i d)
  then show ?thesis using identify_requests[of w s i d] by simp
next
  case (PushState u)
  then show ?thesis
    by (simp add: emitted_same nav_eq_fields(1)[OF nav_eq_history_call])
next
  case (ReplaceState u)
  then show ?thesis
    by (simp add: emitted_same nav_eq_fields(1)[OF nav_eq_history_call])
next
  case Timeout
  let ?s1 = "s\<lparr>timers := timers s - 1\<rparr>"
  have e: "emitted s s' = emitted ?s1 s'" for s'
    by (rule emitted_shift) simp
  show ?thesis
  proof (cases "timers s = 0")
    case True
    then show ?thesis using Timeout by (simp add: emitted_self)
  next
    case False
    then have "step w s e = fst (track w ?s1 (Val JUndefined) JUndefined)"
      using Timeout by simp
    then show ?thesis
      using track_fields(15)[of w ?s1 "Val JUndefined" JUndefined] unfolding e by simp
  qed
next
  case ReadyStateChange
  then show ?thesis
    using init_requests[of w s] by (simp add: emitted_self)
next
  case (Response r)
  then show ?thesis
    by (simp add: emitted_same send_resume_requests)
next
  case (SetTitle t)
  then show ?thesis by (simp add: emitted_same)
next
  case (SetItem k v)
  then show ?thesis by (simp add: emitted_same)
qed

lemma step_cache: "\<not> writes_cache e \<Longrightarrow> cache (step w s e) = cache s"
proof (cases e)
  case (Response r)
  assume "\<not> writes_cache e"
  then show ?thesis
    using Response by (cases r) (simp_all add: send_resume_def)
qed (simp_all add: track_fields init_fields nav_eq_fields(4)[OF nav_eq_history_call])


lemma send_resume_fields:
  "identity (fst (send_resume s r)) = identity s" "initialized (fst (send_resume s r)) = initialized s"
  "pathHooks (fst (send_resume s r)) = pathHooks s"
  "clickListeners (fst (send_resume s r)) = clickListeners s"
  "initTracks (fst (send_resume s r)) = initTracks s"
  "currentUrl (fst (send_resume s r)) = currentUrl s"
  "currentRef (fst (send_resume s r)) = currentRef s" "timers (fst (send_resume s r)) = timers s"
  "listening (fst (send_resume s r)) = listening s" "pending (fst (send_resume s r)) = pending s"
  by (cases r; simp add: send_resume_def)+

subsection \<open>No website id, no request\<close>

lemma website_falsy_disabled:
  "attrs w ''data-website-id'' = None \<or> attrs w ''data-website-id'' = Some [] \<Longrightarrow>
   trackingDisabled w s"
  by (auto simp: trackingDisabled_def website_def attr_def)

lemma identify_requests_disabled:
  assumes "\<And>s. trackingDisabled w s"
  shows "requests (fst (identify w s i d)) = requests s"
  by (auto simp: identify_def Let_def send_disabled[OF assms] split: jsarg.splits jsval.splits)

lemma init_requests_disabled:
  assumes "\<And>s. trackingDisabled w s"
  shows "requests (init w s) = requests s"
  by (simp add: init_def Let_def track_disabled[OF assms] handleClicks_def handlePathChanges_def)

lemma step_requests_disabled:
  assumes "\<And>s. trackingDisabled w s"
  shows "requests (step w s e) = requests s"
proof (cases e)
  case (Track n d)
  then show ?thesis by (simp add: track_disabled[OF assms])
next
  case (Identify i d)
  then show ?thesis by (simp add: identify_requests_disabled[OF assms])
next
  case (PushState u)
  then show ?thesis by (simp add: nav_eq_fields(1)[OF nav_eq_history_call])
next
  case (ReplaceState u)
  then show ?thesis by (simp add: nav_eq_fields(1)[OF nav_eq_history_call])
next
  case Timeout
  then show ?thesis by (simp add: track_disabled[OF assms])
next
  case ReadyStateChange
  then show ?thesis by (simp add: init_requests_disabled[OF assms])
next
  case (Response r)
  then show ?thesis by (simp add: send_resume_requests)
next
  case (SetTitle t)
  then show ?thesis by simp
next
  case (SetItem k v)
  then show ?thesis by simp
qed

lemma run_requests_disabled:
  assumes "\<And>s. trackingDisabled w s"
  shows "requests (run w s evs) = requests s"
  unfolding run_def
  by (induction evs arbitrary: s) (simp_all add: step_requests_disabled[OF assms])

lemma start_requests_disabled:
  assumes "\<And>s. trackingDisabled w s"
  shows "requests (start w ttl st complete) = []"
  by (simp add: start_def Let_def assms initState_def)

text \<open>
  C6. While the script tag has no \<open>data-website-id\<close> attribute, or an empty one, a call of
  \<open>track\<close> or \<open>identify\<close> issues no request, whatever its arguments and the state; and over
  the whole life of the page, whatever happens on it, no request is issued at all.
\<close>

theorem no_website_no_request:
  assumes "attrs w ''data-website-id'' = None \<or> attrs w ''data-website-id'' = Some []"
  shows "requests (fst (track w s name data)) = requests s \<and>
         requests (fst (identify w s ident data')) = requests s \<and>
         requests (run w (start w ttl st complete) evs) = []"
proof -
  have dis: "\<And>s. trackingDisabled w s"
    using assms by (rule website_falsy_disabled)
  have "requests (fst (track w s name data)) = requests s"
    by (simp add: track_disabled[OF dis])
  moreover have "requests (fst (identify w s ident data')) = requests s"
    by (rule identify_requests_disabled[OF dis])
  moreover have "requests (run w (start w ttl st complete) evs) = []"
    by (simp add: run_requests_disabled[OF dis] start_requests_disabled[OF dis])
  ultimately show ?thesis by simp
qed

theorem no_website_no_request_witness:
  "attrs nosite_env ''data-website-id'' = None \<and>
   requests (fst (track nosite_env example_state (Val (JStr ''signup'')) JUndefined)) =
     requests example_state \<and>
   requests (fst (identify nosite_env example_state (Val (JStr ''user-7'')) JUndefined)) =
     requests example_state \<and>
   requests (run nosite_env (start nosite_env ''Home'' Map.empty True)
     [Track (Val JUndefined) JUndefined, PushState (Some ''https://example.com/next''),
      Timeout, Identify (Val (JStr ''user-7'')) JUndefined]) = []"
proof -
  have h: "attrs nosite_env ''data-website-id'' = None"
    by (simp add: nosite_env_def)
  show ?thesis
    using h no_website_no_request[of nosite_env example_state "Val (JStr ''signup'')" JUndefined
        "Val (JStr ''user-7'')" JUndefined "''Home''" Map.empty True
        "[Track (Val JUndefined) JUndefined, PushState (Some ''https://example.com/next''),
          Timeout, Identify (Val (JStr ''user-7'')) JUndefined]"]
    by simp
qed

subsection \<open>Failures of a send\<close>

lemma example_env_callback: "callback example_env = None"
  by (simp add: callback_def example_env_def beforeSend_def attr_def)

lemma example_env_enabled:
  "\<not> disabled s \<Longrightarrow> storage s ''umami.disabled'' = None \<Longrightarrow> \<not> trackingDisabled example_env s"
  by (simp add: trackingDisabled_def example_env_def website_def attr_def localStorage_def
      startsWith_def domain_def dnt_def)






subsection \<open>A response that disables tracking\<close>

lemma disabled_trackingDisabled: "disabled s \<Longrightarrow> trackingDisabled w s"
  by (simp add: trackingDisabled_def)

lemma identify_disabled:
  assumes "disabled s"
  shows "requests (fst (identify w s i d)) = requests s"
    and "disabled (fst (identify w s i d))"
    and "pending (fst (identify w s i d)) = pending s"
  using assms
  by (auto simp: identify_def Let_def send_disabled disabled_trackingDisabled
      split: jsarg.splits jsval.splits)

lemma init_disabled:
  assumes "disabled s"
  shows "requests (init w s) = requests s"
    and "disabled (init w s)"
    and "pending (init w s) = pending s"
  using assms
  by (simp_all add: init_def Let_def track_disabled disabled_trackingDisabled handleClicks_def
      handlePathChanges_def)

lemma step_disabled:
  assumes "disabled s" and "pending s = 0 \<or> \<not> enables e"
  shows "requests (step w s e) = requests s \<and> disabled (step w s e) \<and>
         (pending s = 0 \<longrightarrow> pending (step w s e) = 0)"
proof (cases e)
  case (Track n d)
  then show ?thesis using assms by (simp add: track_disabled disabled_trackingDisabled)
next
  case (Identify i d)
  then show ?thesis using assms by (simp add: identify_disabled)
next
  case (PushState u)
  then show ?thesis using assms by (simp add: nav_eq_fields[OF nav_eq_history_call])
next
  case (ReplaceState u)
  then show ?thesis using assms by (simp add: nav_eq_fields[OF nav_eq_history_call])
next
  case Timeout
  then show ?thesis using assms by (simp add: track_disabled disabled_trackingDisabled)
next
  case ReadyStateChange
  then show ?thesis using assms by (simp add: init_disabled)
next
  case (Response r)
  then show ?thesis using assms by (cases r) (auto simp: send_resume_def)
next
  case (SetTitle t)
  then show ?thesis using assms by simp
next
  case (SetItem k v)
  then show ?thesis using assms by simp
qed

lemma run_disabled:
  assumes "disabled s" and "pending s = 0 \<or> (\<forall>e \<in> set evs. \<not> enables e)"
  shows "requests (run w s evs) = requests s \<and> disabled (run w s evs)"
  using assms
proof (induction evs arbitrary: s)
  case Nil
  then show ?case by (simp add: run_def)
next
  case (Cons e evs)
  have st: "requests (step w s e) = requests s \<and> disabled (step w s e) \<and>
         (pending s = 0 \<longrightarrow> pending (step w s e) = 0)"
    using Cons.prems by (intro step_disabled) auto
  have "requests (run w (step w s e) evs) = requests (step w s e) \<and> disabled (run w (step w s e) evs)"
    using Cons.prems st by (intro Cons.IH) auto
  then show ?case using st by (simp add: run_def)
qed


lemma truthy_get_prop: "truthy (get_prop d k) \<Longrightarrow> truthy d"
  by (cases d) simp_all

text \<open>
  C3, as stated, fails: \<open>send\<close> assigns \<open>!!data.disabled\<close> for every response it processes. Two
  requests are awaiting their responses; the first response disables tracking, the second one,
  without a \<open>disabled\<close> field, enables it again, and the next call of \<open>track\<close> issues a
  request.
\<close>

theorem reenabled_counterexample:
  "disabled (run example_env (start example_env ''Home'' Map.empty True)
     [Track (Val (JStr ''a'')) JUndefined,
      Response (Json (JObj [(''disabled'', JBool True)]))]) \<and>
   length (requests (run example_env (start example_env ''Home'' Map.empty True)
     [Track (Val (JStr ''a'')) JUndefined,
      Response (Json (JObj [(''disabled'', JBool True)]))])) = 2 \<and>
   length (requests (run example_env (start example_env ''Home'' Map.empty True)
     [Track (Val (JStr ''a'')) JUndefined,
      Response (Json (JObj [(''disabled'', JBool True)])),
      Response (Json (JObj [(''cache'', JStr ''tok'')])),
      Track (Val (JStr ''b'')) JUndefined])) = 3"
  by (simp add: model_defs example_env_def)

text \<open>
  C3, amended. Once a response whose \<open>disabled\<close> is truthy has been processed, no later send
  issues a request for as long as no response with a falsy or missing \<open>disabled\<close> is processed;
  such a response can only belong to a request that was already awaiting it, so when the
  disabling response belonged to the only such request, no request is issued for the rest of
  the page's life.
\<close>

theorem stays_disabled:
  assumes "0 < pending s0"
    and "truthy (get_prop d ''disabled'')"
    and "pending s0 = 1 \<or> (\<forall>e \<in> set evs. \<not> enables e)"
  shows "requests (run w (step w s0 (Response (Json d))) evs) =
         requests (step w s0 (Response (Json d)))"
proof -
  let ?s = "step w s0 (Response (Json d))"
  have d: "truthy d"
    using assms(2) by (rule truthy_get_prop)
  have s: "?s = s0\<lparr>pending := pending s0 - 1, disabled := True, cache := get_prop d ''cache''\<rparr>"
    using assms(1,2) d by (simp add: send_resume_def)
  have "disabled ?s"
    unfolding s by simp
  moreover have "pending ?s = 0 \<or> (\<forall>e \<in> set evs. \<not> enables e)"
    unfolding s using assms(3) by auto
  ultimately show ?thesis
    using run_disabled[of ?s evs w] by blast
qed

theorem stays_disabled_witness:
  "pending (start example_env ''Home'' Map.empty True) = 1 \<and>
   truthy (get_prop (JObj [(''disabled'', JBool True)]) ''disabled'') \<and>
   requests (run example_env
     (step example_env (start example_env ''Home'' Map.empty True)
        (Response (Json (JObj [(''disabled'', JBool True)]))))
     [Track (Val (JStr ''b'')) JUndefined, Response (Json (JObj [])),
      Identify (Val (JStr ''user-7'')) JUndefined]) =
   requests (step example_env (start example_env ''Home'' Map.empty True)
        (Response (Json (JObj [(''disabled'', JBool True)])))) \<and>
   length (requests (step example_env (start example_env ''Home'' Map.empty True)
        (Response (Json (JObj [(''disabled'', JBool True)]))))) = 1"
proof -
  have p: "pending (start example_env ''Home'' Map.empty True) = 1"
    by (simp add: model_defs example_env_def)
  have l: "length (requests (step example_env (start example_env ''Home'' Map.empty True)
        (Response (Json (JObj [(''disabled'', JBool True)]))))) = 1"
    by (simp add: model_defs example_env_def)
  show ?thesis
    using p l stays_disabled[of "start example_env ''Home'' Map.empty True"
        "JObj [(''disabled'', JBool True)]"
        "[Track (Val (JStr ''b'')) JUndefined, Response (Json (JObj [])),
          Identify (Val (JStr ''user-7'')) JUndefined]" example_env]
    by simp
qed


subsection \<open>The cache header\<close>

lemma run_snoc: "run w s (evs @ [e]) = step w (run w s evs) e"
  by (simp add: run_def)

lemma run_cache_undefined:
  assumes "cache s = JUndefined"
    and "\<forall>r \<in> set (requests s). req_headers r = [(''Content-Type'', JStr ''application/json'')]"
    and "\<forall>e \<in> set evs. \<not> writes_cache e"
  shows "cache (run w s evs) = JUndefined \<and>
         (\<forall>r \<in> set (requests (run w s evs)).
            req_headers r = [(''Content-Type'', JStr ''application/json'')])"
  using assms(3)
proof (induction evs rule: rev_induct)
  case Nil
  then show ?case using assms(1,2) by (simp add: run_def)
next
  case (snoc e evs)
  let ?s = "run w s evs"
  have ih: "cache ?s = JUndefined"
    "\<forall>r \<in> set (requests ?s). req_headers r = [(''Content-Type'', JStr ''application/json'')]"
    using snoc by auto
  have nw: "\<not> writes_cache e"
    using snoc.prems by simp
  have c: "cache (step w ?s e) = JUndefined"
    using step_cache[OF nw, of w ?s] ih(1) by simp
  have "\<forall>r \<in> set (emitted ?s (step w ?s e)).
          req_headers r = [(''Content-Type'', JStr ''application/json'')]"
    using step_emitted[of ?s w e] nw ih(1) by (auto simp: mk_request_def)
  then have "\<forall>r \<in> set (requests (step w ?s e)).
          req_headers r = [(''Content-Type'', JStr ''application/json'')]"
    using ih(2) by (subst step_requests) auto
  then show ?case
    using c by (simp add: run_snoc)
qed

lemma start_cache_undefined:
  "cache (start w ttl st complete) = JUndefined \<and>
   (\<forall>r \<in> set (requests (start w ttl st complete)).
      req_headers r = [(''Content-Type'', JStr ''application/json'')])"
proof -
  let ?s = "initState w ttl st"
  have c: "cache ?s = JUndefined" and r: "requests ?s = []"
    by (simp_all add: initState_def)
  have "\<forall>r \<in> set (emitted ?s (init w ?s)).
          req_headers r = [(''Content-Type'', JStr ''application/json'')]"
    using init_emitted[of ?s w] c by (auto simp: mk_request_def)
  then have "\<forall>r \<in> set (requests (init w ?s)).
          req_headers r = [(''Content-Type'', JStr ''application/json'')]"
    by (subst init_requests) (simp add: r)
  then show ?thesis
    using c r by (simp add: start_def Let_def init_fields)
qed

lemma emitted_append: "requests s' = requests s @ xs \<Longrightarrow> emitted s s' = xs"
  by (simp add: emitted_def)

lemma run_requests: "requests (run w s evs) = requests s @ emitted s (run w s evs)"
proof (induction evs rule: rev_induct)
  case Nil
  show ?case by (simp add: run_def emitted_self)
next
  case (snoc e evs)
  let ?s = "run w s evs"
  have r: "requests (step w ?s e) = requests s @ (emitted s ?s @ emitted ?s (step w ?s e))"
    using snoc.IH step_requests[of w ?s e] by simp
  have "emitted s (step w ?s e) = emitted s ?s @ emitted ?s (step w ?s e)"
    using r by (rule emitted_append)
  then have "requests (step w ?s e) = requests s @ emitted s (step w ?s e)"
    using r by simp
  then show ?case
    by (simp only: run_snoc)
qed

lemma emitted_run_snoc:
  "emitted s (run w s (evs @ [e])) =
   emitted s (run w s evs) @ emitted (run w s evs) (step w (run w s evs) e)"
proof -
  let ?s = "run w s evs"
  have "requests (step w ?s e) = requests s @ (emitted s ?s @ emitted ?s (step w ?s e))"
    using run_requests[of w s evs] step_requests[of w ?s e] by simp
  then have "emitted s (step w ?s e) = emitted s ?s @ emitted ?s (step w ?s e)"
    by (rule emitted_append)
  then show ?thesis
    by (simp only: run_snoc)
qed

lemma run_cache_kept:
  assumes "\<forall>e \<in> set evs. \<not> writes_cache e"
  shows "cache (run w s evs) = cache s \<and>
         (\<forall>r \<in> set (emitted s (run w s evs)).
            req_headers r =
              (''Content-Type'', JStr ''application/json'') #
              (if cache s \<noteq> JUndefined then [(''x-umami-cache'', cache s)] else []))"
  using assms
proof (induction evs rule: rev_induct)
  case Nil
  show ?case by (simp add: run_def emitted_self)
next
  case (snoc e evs)
  let ?s = "run w s evs"
  have ih: "cache ?s = cache s"
    "\<forall>r \<in> set (emitted s ?s).
            req_headers r =
              (''Content-Type'', JStr ''application/json'') #
              (if cache s \<noteq> JUndefined then [(''x-umami-cache'', cache s)] else [])"
    using snoc by auto
  have nw: "\<not> writes_cache e"
    using snoc.prems by simp
  have c: "cache (step w ?s e) = cache s"
    using step_cache[OF nw, of w ?s] ih(1) by simp
  have "\<forall>r \<in> set (emitted ?s (step w ?s e)).
            req_headers r =
              (''Content-Type'', JStr ''application/json'') #
              (if cache s \<noteq> JUndefined then [(''x-umami-cache'', cache s)] else [])"
    using step_emitted[of ?s w e] nw ih(1) by (auto simp: mk_request_def)
  then show ?case
    using c ih(2) unfolding emitted_run_snoc by (auto simp: run_snoc)
qed

text \<open>
  C4, as stated, fails in both halves. \<open>identify\<close> assigns the empty string to \<open>cache\<close>
  before it sends, so its request carries the header, with an empty value, although no token
  was ever received. And \<open>send\<close> assigns \<open>data.cache\<close> for every response it processes: after
  a token was received, a response without a \<open>cache\<close> field makes \<open>cache\<close> undefined again
  and the next request has no header.
\<close>

theorem cache_header_counterexample:
  "cache example_state = JUndefined \<and>
   map req_headers
     (requests (fst (identify example_env example_state (Val (JStr ''user-7'')) JUndefined))) =
     [[(''Content-Type'', JStr ''application/json''), (''x-umami-cache'', JStr [])]] \<and>
   cache (run example_env (start example_env ''Home'' Map.empty True)
     [Track (Val (JStr ''a'')) JUndefined,
      Response (Json (JObj [(''cache'', JStr ''tok'')]))]) = JStr ''tok'' \<and>
   map req_headers (requests (run example_env (start example_env ''Home'' Map.empty True)
     [Track (Val (JStr ''a'')) JUndefined,
      Response (Json (JObj [(''cache'', JStr ''tok'')])),
      Response (Json (JObj [(''ok'', JBool True)])),
      Track (Val (JStr ''b'')) JUndefined])) =
     [[(''Content-Type'', JStr ''application/json'')],
      [(''Content-Type'', JStr ''application/json'')],
      [(''Content-Type'', JStr ''application/json'')]]"
  by (simp add: model_defs example_env_def example_state_def)


text \<open>
  C4, amended. A request carries the header \<open>x-umami-cache\<close> exactly when the variable
  \<open>cache\<close> is defined at the time of the send, and then with its value. The variable is
  undefined when the script starts; \<open>identify\<close> assigns the empty string before it sends, so
  its own request carries the empty string; processing the response of a request, when the
  body is truthy, assigns the \<open>cache\<close> field of the body (undefined when missing). Between
  two such assignments the variable keeps its value, and every request sent in between
  carries it: the token of the last response processed, the empty string after \<open>identify\<close>,
  no header before the first of them or after a response without a token.
\<close>

theorem cache_header:
  "(\<forall>r \<in> set (emitted s (fst (track w s name data))).
      req_headers r =
        (''Content-Type'', JStr ''application/json'') #
        (if cache s \<noteq> JUndefined then [(''x-umami-cache'', cache s)] else [])) \<and>
   (\<forall>r \<in> set (emitted s (fst (identify w s ident data'))).
      req_headers r =
        [(''Content-Type'', JStr ''application/json''), (''x-umami-cache'', JStr [])]) \<and>
   cache (step w s (Identify ident data')) = JStr [] \<and>
   (0 < pending s \<longrightarrow> truthy d \<longrightarrow>
      cache (step w s (Response (Json d))) = get_prop d ''cache'') \<and>
   ((\<forall>e \<in> set evs. \<not> writes_cache e) \<longrightarrow>
      cache (run w s evs) = cache s \<and>
      (\<forall>r \<in> set (emitted s (run w s evs)).
         req_headers r =
           (''Content-Type'', JStr ''application/json'') #
           (if cache s \<noteq> JUndefined then [(''x-umami-cache'', cache s)] else []))) \<and>
   cache (start w ttl st complete) = JUndefined \<and>
   ((\<forall>e \<in> set evs. \<not> writes_cache e) \<longrightarrow>
      (\<forall>r \<in> set (requests (run w (start w ttl st complete) evs)).
         req_headers r = [(''Content-Type'', JStr ''application/json'')]))"
proof -
  have a: "\<forall>r \<in> set (emitted s (fst (track w s name data))).
      req_headers r =
        (''Content-Type'', JStr ''application/json'') #
        (if cache s \<noteq> JUndefined then [(''x-umami-cache'', cache s)] else [])"
    using track_emitted[of s w name data] by (auto simp: mk_request_def)
  have b: "\<forall>r \<in> set (emitted s (fst (identify w s ident data'))).
      req_headers r =
        [(''Content-Type'', JStr ''application/json''), (''x-umami-cache'', JStr [])]"
    using identify_emitted[of s w ident data'] by (auto simp: mk_request_def)
  have c: "cache (step w s (Identify ident data')) = JStr []"
    by (simp add: identify_fields)
  have d: "0 < pending s \<longrightarrow> truthy d \<longrightarrow>
      cache (step w s (Response (Json d))) = get_prop d ''cache''"
    by (simp add: send_resume_def)
  have e: "(\<forall>e \<in> set evs. \<not> writes_cache e) \<longrightarrow>
      cache (run w s evs) = cache s \<and>
      (\<forall>r \<in> set (emitted s (run w s evs)).
         req_headers r =
           (''Content-Type'', JStr ''application/json'') #
           (if cache s \<noteq> JUndefined then [(''x-umami-cache'', cache s)] else []))"
    using run_cache_kept[of evs w s] by blast
  have f: "cache (start w ttl st complete) = JUndefined"
    using start_cache_undefined[of w ttl st complete] by blast
  have g: "(\<forall>e \<in> set evs. \<not> writes_cache e) \<longrightarrow>
      (\<forall>r \<in> set (requests (run w (start w ttl st complete) evs)).
         req_headers r = [(''Content-Type'', JStr ''application/json'')])"
    using run_cache_undefined[of "start w ttl st complete" evs w]
      start_cache_undefined[of w ttl st complete] by blast
  show ?thesis
    using a b c d e f g by blast
qed

theorem cache_header_witness:
  "0 < pending (start example_env ''Home'' Map.empty True) \<and>
   cache (step example_env (start example_env ''Home'' Map.empty True)
     (Response (Json (JObj [(''cache'', JStr ''tok'')])))) = JStr ''tok'' \<and>
   map req_headers
     (emitted
        (step example_env (start example_env ''Home'' Map.empty True)
           (Response (Json (JObj [(''cache'', JStr ''tok'')]))))
        (run example_env
           (step example_env (start example_env ''Home'' Map.empty True)
              (Response (Json (JObj [(''cache'', JStr ''tok'')]))))
           [Track (Val (JStr ''a'')) JUndefined, Response NetworkError,
            PushState (Some ''https://example.com/next''), Timeout])) =
     [[(''Content-Type'', JStr ''application/json''), (''x-umami-cache'', JStr ''tok'')],
      [(''Content-Type'', JStr ''application/json''), (''x-umami-cache'', JStr ''tok'')]] \<and>
   map req_headers
     (emitted
        (step example_env (start example_env ''Home'' Map.empty True)
           (Response (Json (JObj [(''cache'', JStr ''tok'')]))))
        (fst (identify example_env
           (step example_env (start example_env ''Home'' Map.empty True)
              (Response (Json (JObj [(''cache'', JStr ''tok'')]))))
           (Val (JStr ''user-7'')) JUndefined))) =
     [[(''Content-Type'', JStr ''application/json''), (''x-umami-cache'', JStr [])]]"
proof -
  define s0 where "s0 = start example_env ''Home'' Map.empty True"
  define s1 where "s1 = step example_env s0 (Response (Json (JObj [(''cache'', JStr ''tok'')])))"
  define evs where "evs = [Track (Val (JStr ''a'')) JUndefined, Response NetworkError,
            PushState (Some ''https://example.com/next''), Timeout]"
  have p: "0 < pending s0"
    unfolding s0_def by (simp add: model_defs example_env_def)
  have q: "\<forall>e \<in> set evs. \<not> writes_cache e"
    by (simp add: evs_def)
  have l2: "length (emitted s1 (run example_env s1 evs)) = 2"
    unfolding s1_def s0_def evs_def by (simp add: model_defs example_env_def example_URL_def)
  have l1: "length (emitted s1 (fst (identify example_env s1 (Val (JStr ''user-7'')) JUndefined)))
            = 1"
    unfolding s1_def s0_def by (simp add: model_defs example_env_def)
  have c: "cache s1 = JStr ''tok''"
    using cache_header[of s0 example_env "Val JUndefined" JUndefined "Val JUndefined" JUndefined
        "JObj [(''cache'', JStr ''tok'')]" "[]" "''Home''" Map.empty True] p
    unfolding s1_def by simp
  note t = cache_header[of s1 example_env "Val JUndefined" JUndefined "Val (JStr ''user-7'')"
      JUndefined JNull evs "''Home''" Map.empty True]
  have h2: "\<forall>r \<in> set (emitted s1 (run example_env s1 evs)).
      req_headers r =
        [(''Content-Type'', JStr ''application/json''), (''x-umami-cache'', JStr ''tok'')]"
    using t q c by simp
  have h1: "\<forall>r \<in> set (emitted s1 (fst (identify example_env s1 (Val (JStr ''user-7''))
        JUndefined))).
      req_headers r = [(''Content-Type'', JStr ''application/json''), (''x-umami-cache'', JStr [])]"
    using t by blast
  have m2: "map req_headers (emitted s1 (run example_env s1 evs)) =
     replicate 2 [(''Content-Type'', JStr ''application/json''), (''x-umami-cache'', JStr ''tok'')]"
    by (rule replicate_eqI) (use l2 h2 in auto)
  have m1: "map req_headers
      (emitted s1 (fst (identify example_env s1 (Val (JStr ''user-7'')) JUndefined))) =
     replicate 1 [(''Content-Type'', JStr ''application/json''), (''x-umami-cache'', JStr [])]"
    by (rule replicate_eqI) (use l1 h1 in auto)
  have r2: "replicate 2 x = [x, x]" for x :: "(string \<times> jsval) list"
    by (simp add: numeral_2_eq_2)
  show ?thesis
    using p c m2 m1 unfolding s1_def s0_def evs_def r2 by simp
qed

subsection \<open>The body of a request\<close>

lemma get_prop_set_prop:
  "get_prop (JObj (set_prop kvs k v)) k' = (if k' = k then v else get_prop (JObj kvs) k')"
  by (simp add: set_prop_def update_conv')

lemma keys_set_prop: "fst ` set (set_prop kvs k v) = insert k (fst ` set kvs)"
  by (simp add: set_prop_def dom_update)

lemma spread_getPayload: "JObj (spread (getPayload w s)) = getPayload w s"
  by (simp add: getPayload_def)

lemma getPayload_fields:
  "get_prop (getPayload w s) ''website'' = of_attr (website w)"
  "get_prop (getPayload w s) ''screen'' = JStr (screen w)"
  "get_prop (getPayload w s) ''language'' = JStr (language w)"
  "get_prop (getPayload w s) ''title'' = JStr (title s)"
  "get_prop (getPayload w s) ''hostname'' = JStr (hostname w)"
  "get_prop (getPayload w s) ''url'' = JStr (currentUrl s)"
  "get_prop (getPayload w s) ''referrer'' = JStr (currentRef s)"
  "get_prop (getPayload w s) ''tag'' = tag w"
  "get_prop (getPayload w s) ''id'' =
     (case identity s of None \<Rightarrow> JUndefined | Some i \<Rightarrow> if i \<noteq> [] then JStr i else JUndefined)"
  by (simp_all add: getPayload_def)

lemma getPayload_keys:
  "fst ` set (spread (getPayload w s)) =
   {''website'', ''screen'', ''language'', ''title'', ''hostname'', ''url'', ''referrer'',
    ''tag'', ''id''}"
  by (simp add: getPayload_def)

lemma send_plain:
  assumes "callback w = None"
  shows "emitted s (fst (send w s p t)) =
         (if \<not> trackingDisabled w s \<and> truthy p then [mk_request w s t p] else [])"
  using assms by (simp add: send_def emitted_def)

lemma track_plain:
  assumes "callback w = None" and "typeof name \<noteq> ''object''" and "typeof name \<noteq> ''function''"
  shows "emitted s (fst (track w s name data)) =
         (if trackingDisabled w s then []
          else [mk_request w s ''event''
                 (case name of
                    Val (JStr n) \<Rightarrow>
                      JObj (set_prop (set_prop (spread (getPayload w s)) ''name'' (JStr n))
                              ''data'' data)
                  | _ \<Rightarrow> getPayload w s)])"
proof (cases name)
  case (Val v)
  have g: "truthy (getPayload w s)"
    by (simp add: getPayload_def)
  show ?thesis
    using Val assms(2) g by (cases v) (simp_all add: track_def send_plain[OF assms(1)])
next
  case (Fun f)
  then show ?thesis using assms(3) by simp
qed

lemma identify_plain:
  assumes "callback w = None"
  shows "emitted s (fst (identify w s ident data)) =
         (let s2 = s\<lparr>identity := (case ident of Val (JStr j) \<Rightarrow> Some j | _ \<Rightarrow> identity s),
                     cache := JStr []\<rparr>
          in if trackingDisabled w s then []
             else [mk_request w s2 ''identify''
                    (JObj (set_prop (spread (getPayload w s2)) ''data''
                       (case ident of
                          Val v \<Rightarrow> if typeof ident = ''object'' then v else data
                        | Fun f \<Rightarrow> data)))])"
proof -
  define s2 where
    "s2 = (case ident of Val (JStr j) \<Rightarrow> s\<lparr>identity := Some j\<rparr> | _ \<Rightarrow> s)\<lparr>cache := JStr []\<rparr>"
  have s2: "s2 = s\<lparr>identity := (case ident of Val (JStr j) \<Rightarrow> Some j | _ \<Rightarrow> identity s),
                  cache := JStr []\<rparr>"
    unfolding s2_def by (simp split: jsarg.splits jsval.splits)
  have d: "trackingDisabled w s2 = trackingDisabled w s"
    by (simp add: s2 trackingDisabled_def localStorage_def)
  have e: "emitted s x = emitted s2 x" for x
    by (rule emitted_shift) (simp add: s2)
  have "identify w s ident data = send w s2
           (JObj (set_prop (spread (getPayload w s2)) ''data''
                    (case ident of
                       Val v \<Rightarrow> if typeof ident = ''object'' then v else data
                     | Fun f \<Rightarrow> data)))
           ''identify''"
    by (simp add: identify_def Let_def s2_def)
  then show ?thesis
    unfolding e by (simp add: send_plain[OF assms] d s2[symmetric] Let_def)
qed

lemma enabled_website: "\<not> trackingDisabled w s \<Longrightarrow> \<exists>i. website w = Some i \<and> i \<noteq> []"
  by (cases "website w") (auto simp: trackingDisabled_def)


lemma run_bodies:
  assumes "\<forall>r \<in> set (requests s). \<exists>t p. req_body r = JObj [(''type'', JStr t), (''payload'', p)] \<and>
             (t = ''event'' \<or> t = ''identify'') \<and> truthy p"
  shows "\<forall>r \<in> set (requests (run w s evs)).
           \<exists>t p. req_body r = JObj [(''type'', JStr t), (''payload'', p)] \<and>
             (t = ''event'' \<or> t = ''identify'') \<and> truthy p"
proof (induction evs rule: rev_induct)
  case Nil
  then show ?case using assms by (simp add: run_def)
next
  case (snoc e evs)
  let ?s = "run w s evs"
  have "\<forall>r \<in> set (emitted ?s (step w ?s e)).
          \<exists>t p. req_body r = JObj [(''type'', JStr t), (''payload'', p)] \<and>
             (t = ''event'' \<or> t = ''identify'') \<and> truthy p"
    using step_emitted[of ?s w e] by (auto simp: mk_request_def)
  then show ?case
    using snoc.IH unfolding run_snoc by (subst step_requests) auto
qed

lemma start_bodies:
  "\<forall>r \<in> set (requests (start w ttl st complete)).
     \<exists>t p. req_body r = JObj [(''type'', JStr t), (''payload'', p)] \<and>
       (t = ''event'' \<or> t = ''identify'') \<and> truthy p"
proof -
  let ?s = "initState w ttl st"
  have r: "requests ?s = []"
    by (simp add: initState_def)
  have "\<forall>r \<in> set (emitted ?s (init w ?s)).
     \<exists>t p. req_body r = JObj [(''type'', JStr t), (''payload'', p)] \<and>
       (t = ''event'' \<or> t = ''identify'') \<and> truthy p"
    using init_emitted[of ?s w] by (auto simp: mk_request_def)
  then have "\<forall>r \<in> set (requests (init w ?s)).
     \<exists>t p. req_body r = JObj [(''type'', JStr t), (''payload'', p)] \<and>
       (t = ''event'' \<or> t = ''identify'') \<and> truthy p"
    by (subst init_requests) (simp add: r)
  then show ?thesis
    using r by (simp add: start_def Let_def)
qed

lemma built_payload_fields:
  assumes "callback w = None"
    and "typeof name \<noteq> ''object''"
    and "typeof name \<noteq> ''function''"
  shows "(\<forall>r \<in> set (emitted s (fst (track w s name data))) \<union>
              set (emitted s (fst (identify w s ident data'))).
            \<exists>t p. req_body r = JObj [(''type'', JStr t), (''payload'', p)] \<and>
              (t = ''event'' \<or> t = ''identify'') \<and>
              (\<exists>i. i \<noteq> [] \<and> website w = Some i \<and> get_prop p ''website'' = JStr i) \<and>
              get_prop p ''screen'' = JStr (digits (width w) @ ''x'' @ digits (height w)) \<and>
              get_prop p ''language'' = JStr (language w) \<and>
              get_prop p ''title'' = JStr (title s) \<and>
              get_prop p ''hostname'' = JStr (hostname w) \<and>
              get_prop p ''url'' = JStr (currentUrl s) \<and>
              get_prop p ''referrer'' = JStr (currentRef s) \<and>
              get_prop p ''tag'' = tag w \<and>
              fst ` set (spread p) \<subseteq>
                {''website'', ''screen'', ''language'', ''title'', ''hostname'', ''url'',
                 ''referrer'', ''tag'', ''id'', ''name'', ''data''}) \<and>
         (\<forall>r \<in> set (emitted s (fst (track w s name data))). \<forall>n. name = Val (JStr n) \<longrightarrow>
            get_prop (get_prop (req_body r) ''payload'') ''name'' = JStr n \<and>
            get_prop (get_prop (req_body r) ''payload'') ''data'' = data)"
proof (intro conjI ballI allI impI)
  fix r
  assume r: "r \<in> set (emitted s (fst (track w s name data))) \<union>
                 set (emitted s (fst (identify w s ident data')))"
  define s2 where
    "s2 = s\<lparr>identity := (case ident of Val (JStr j) \<Rightarrow> Some j | _ \<Rightarrow> identity s),
            cache := JStr []\<rparr>"
  from r have en: "\<not> trackingDisabled w s"
    by (auto simp: track_plain[OF assms] identify_plain[OF assms(1)] Let_def split: if_splits)
  then obtain i where i: "website w = Some i" "i \<noteq> []"
    using enabled_website by blast
  from r en consider
      (page) "r = mk_request w s ''event'' (getPayload w s)"
    | (named) n where
        "r = mk_request w s ''event''
               (JObj (set_prop (set_prop (spread (getPayload w s)) ''name'' (JStr n))
                  ''data'' data))"
    | (ident) x where
        "r = mk_request w s2 ''identify''
               (JObj (set_prop (spread (getPayload w s2)) ''data'' x))"
    by (auto simp: track_plain[OF assms] identify_plain[OF assms(1)] Let_def s2_def
        split: if_splits jsarg.splits jsval.splits)
  then show "\<exists>t p. req_body r = JObj [(''type'', JStr t), (''payload'', p)] \<and>
              (t = ''event'' \<or> t = ''identify'') \<and>
              (\<exists>i. i \<noteq> [] \<and> website w = Some i \<and> get_prop p ''website'' = JStr i) \<and>
              get_prop p ''screen'' = JStr (digits (width w) @ ''x'' @ digits (height w)) \<and>
              get_prop p ''language'' = JStr (language w) \<and>
              get_prop p ''title'' = JStr (title s) \<and>
              get_prop p ''hostname'' = JStr (hostname w) \<and>
              get_prop p ''url'' = JStr (currentUrl s) \<and>
              get_prop p ''referrer'' = JStr (currentRef s) \<and>
              get_prop p ''tag'' = tag w \<and>
              fst ` set (spread p) \<subseteq>
                {''website'', ''screen'', ''language'', ''title'', ''hostname'', ''url'',
                 ''referrer'', ''tag'', ''id'', ''name'', ''data''}"
  proof cases
    case page
    show ?thesis
      unfolding page mk_request_def
      using i by (simp add: getPayload_fields screen_def) (simp add: getPayload_def)
  next
    case (named n)
    show ?thesis
      unfolding named mk_request_def
      using i
      by (simp add: get_prop_set_prop spread_getPayload getPayload_fields screen_def
          keys_set_prop getPayload_keys del: get_prop.simps)
  next
    case (ident x)
    show ?thesis
      unfolding ident mk_request_def
      using i
      by (simp add: get_prop_set_prop spread_getPayload getPayload_fields screen_def
          keys_set_prop getPayload_keys del: get_prop.simps) (simp add: s2_def)
  qed
next
  fix r n
  assume a: "r \<in> set (emitted s (fst (track w s name data)))" and n: "name = Val (JStr n)"
  have "r = mk_request w s ''event''
               (JObj (set_prop (set_prop (spread (getPayload w s)) ''name'' (JStr n))
                  ''data'' data))"
    using a track_plain[OF assms, of s data] unfolding n by (auto split: if_splits)
  then show "get_prop (get_prop (req_body r) ''payload'') ''name'' = JStr n"
    and "get_prop (get_prop (req_body r) ''payload'') ''data'' = data"
    by (simp_all add: mk_request_def set_prop_def update_conv')
qed

lemma built_payload_types:
  assumes "callback w = None"
  shows "(\<forall>r \<in> set (emitted s (fst (identify w s ident data'))).
            \<exists>p. req_body r = JObj [(''type'', JStr ''identify''), (''payload'', p)]) \<and>
         (typeof name \<noteq> ''object'' \<longrightarrow> typeof name \<noteq> ''function'' \<longrightarrow>
          (\<forall>r \<in> set (emitted s (fst (track w s name data))).
            \<exists>p. req_body r = JObj [(''type'', JStr ''event''), (''payload'', p)]))"
  using assms
  by (auto simp: track_plain identify_plain Let_def mk_request_def split: if_splits)

lemma track_object_plain:
  assumes "callback w = None" and "typeof (Val v) = ''object''"
  shows "map req_body (emitted s (fst (track w s (Val v) data))) =
         (if trackingDisabled w s then []
          else [JObj [(''type'', JStr ''event''), (''payload'', JObj (spread v))]])"
  using assms(2)
  by (cases v) (simp_all add: track_def send_plain[OF assms(1)] mk_request_def)

lemma track_function_plain:
  assumes "callback w = None" and "f (getPayload w s) = Some p"
  shows "map req_body (emitted s (fst (track w s (Fun f) data))) =
         (if trackingDisabled w s \<or> \<not> truthy p then []
          else [JObj [(''type'', JStr ''event''), (''payload'', p)]])"
  using assms(2) by (simp add: track_def send_plain[OF assms(1)] mk_request_def)

lemma send_hooked:
  assumes "callback w = Some h" and "r \<in> set (emitted s (fst (send w s p t)))"
  shows "h t p = Some (get_prop (req_body r) ''payload'')"
  using assms by (auto simp: send_def emitted_def mk_request_def split: option.splits if_splits)

lemma track_hooked:
  assumes "callback w = Some h" and "r \<in> set (emitted s (fst (track w s name data)))"
  shows "\<exists>p. h ''event'' p = Some (get_prop (req_body r) ''payload'')"
proof -
  consider "fst (track w s name data) = s" | p where "fst (track w s name data) = fst (send w s p ''event'')"
    using track_send[of w s name data] by auto
  then show ?thesis
  proof cases
    case 1
    then show ?thesis using assms(2) by (simp add: emitted_self)
  next
    case 2
    then show ?thesis using send_hooked[OF assms(1), of r s p "''event''"] assms(2) by auto
  qed
qed

lemma identify_hooked:
  assumes "callback w = Some h" and "r \<in> set (emitted s (fst (identify w s ident data)))"
  shows "\<exists>p. h ''identify'' p = Some (get_prop (req_body r) ''payload'')"
proof -
  define s2 where
    "s2 = (case ident of Val (JStr j) \<Rightarrow> s\<lparr>identity := Some j\<rparr> | _ \<Rightarrow> s)\<lparr>cache := JStr []\<rparr>"
  have r: "requests s2 = requests s"
    by (auto simp: s2_def split: jsarg.splits jsval.splits)
  obtain p where p: "identify w s ident data = send w s2 p ''identify''"
    by (simp add: identify_def Let_def s2_def)
  have "r \<in> set (emitted s2 (fst (send w s2 p ''identify'')))"
    using assms(2) unfolding p by (simp add: emitted_def r)
  then show ?thesis
    using send_hooked[OF assms(1)] by blast
qed

text \<open>
  C1, as stated, fails: \<open>track\<close> called with an object sends a copy of that object as the
  payload, without adding any field; an empty object gives a request whose payload has no
  \<open>website\<close> (nor any other field). The same holds for a payload returned by a function given
  to \<open>track\<close> or by the before-send function.
\<close>

theorem direct_payload_counterexample:
  "map req_body (requests (fst (track example_env example_state (Val (JObj [])) JUndefined))) =
     [JObj [(''type'', JStr ''event''), (''payload'', JObj [])]] \<and>
   get_prop (JObj []) ''website'' = JUndefined"
  by (simp add: model_defs example_env_def example_state_def)


text \<open>
  C1, amended. Every request has as body an object \<open>{type, payload}\<close> with type \<open>event\<close> or
  \<open>identify\<close> and a truthy payload. When no before-send function is configured: the payload
  of a request made by \<open>identify\<close> (type \<open>identify\<close>), or by \<open>track\<close> called with an event
  name or with an argument that is neither an object nor a function (type \<open>event\<close>), has
  the fields \<open>website\<close> (the configured, non-empty id), \<open>screen\<close> (width, \<open>x\<close>, height),
  \<open>language\<close>, \<open>title\<close>, \<open>hostname\<close>, \<open>url\<close> and \<open>referrer\<close>, the configured \<open>tag\<close>, and no
  fields other than these and \<open>id\<close>, \<open>name\<close> and \<open>data\<close>; with an event name, \<open>name\<close> and
  \<open>data\<close> are the arguments of the call; \<open>track\<close> called with a value of type \<open>object\<close>
  sends a copy of its own enumerable properties (the elements of an array under their
  indices, nothing for \<open>null\<close>) and nothing else; \<open>track\<close> called with a function sends what
  the function returns for the payload of \<open>getPayload\<close>, when that is truthy. When a
  before-send function is configured, the payload of a request is what that function
  returned for the type of the request.
\<close>

theorem payload_fields:
  "(\<forall>r \<in> set (requests (run w (start w ttl st complete) evs)).
      \<exists>t p. req_body r = JObj [(''type'', JStr t), (''payload'', p)] \<and>
        (t = ''event'' \<or> t = ''identify'') \<and> truthy p) \<and>
   (callback w = None \<longrightarrow>
      (\<forall>r \<in> set (emitted s (fst (identify w s ident data'))).
            \<exists>p. req_body r = JObj [(''type'', JStr ''identify''), (''payload'', p)] \<and>
              (\<exists>i. i \<noteq> [] \<and> website w = Some i \<and> get_prop p ''website'' = JStr i) \<and>
              get_prop p ''screen'' = JStr (digits (width w) @ ''x'' @ digits (height w)) \<and>
              get_prop p ''language'' = JStr (language w) \<and>
              get_prop p ''title'' = JStr (title s) \<and>
              get_prop p ''hostname'' = JStr (hostname w) \<and>
              get_prop p ''url'' = JStr (currentUrl s) \<and>
              get_prop p ''referrer'' = JStr (currentRef s) \<and>
              get_prop p ''tag'' = tag w \<and>
              fst ` set (spread p) \<subseteq>
                {''website'', ''screen'', ''language'', ''title'', ''hostname'', ''url'',
                 ''referrer'', ''tag'', ''id'', ''name'', ''data''})) \<and>
   (callback w = None \<longrightarrow> typeof name \<noteq> ''object'' \<longrightarrow> typeof name \<noteq> ''function'' \<longrightarrow>
      (\<forall>r \<in> set (emitted s (fst (track w s name data))).
            \<exists>p. req_body r = JObj [(''type'', JStr ''event''), (''payload'', p)] \<and>
              (\<exists>i. i \<noteq> [] \<and> website w = Some i \<and> get_prop p ''website'' = JStr i) \<and>
              get_prop p ''screen'' = JStr (digits (width w) @ ''x'' @ digits (height w)) \<and>
              get_prop p ''language'' = JStr (language w) \<and>
              get_prop p ''title'' = JStr (title s) \<and>
              get_prop p ''hostname'' = JStr (hostname w) \<and>
              get_prop p ''url'' = JStr (currentUrl s) \<and>
              get_prop p ''referrer'' = JStr (currentRef s) \<and>
              get_prop p ''tag'' = tag w \<and>
              fst ` set (spread p) \<subseteq>
                {''website'', ''screen'', ''language'', ''title'', ''hostname'', ''url'',
                 ''referrer'', ''tag'', ''id'', ''name'', ''data''})) \<and>
   (callback w = None \<longrightarrow>
      (\<forall>r \<in> set (emitted s (fst (track w s (Val (JStr n)) data))).
         get_prop (get_prop (req_body r) ''payload'') ''name'' = JStr n \<and>
         get_prop (get_prop (req_body r) ''payload'') ''data'' = data)) \<and>
   (callback w = None \<longrightarrow> typeof (Val v) = ''object'' \<longrightarrow>
      map req_body (emitted s (fst (track w s (Val v) data))) =
        (if trackingDisabled w s then []
         else [JObj [(''type'', JStr ''event''), (''payload'', JObj (spread v))]])) \<and>
   (callback w = None \<longrightarrow> f (getPayload w s) = Some q \<longrightarrow>
      map req_body (emitted s (fst (track w s (Fun f) data))) =
        (if trackingDisabled w s \<or> \<not> truthy q then []
         else [JObj [(''type'', JStr ''event''), (''payload'', q)]])) \<and>
   (callback w = Some h \<longrightarrow>
      (\<forall>r \<in> set (emitted s (fst (track w s name data))).
         \<exists>p. h ''event'' p = Some (get_prop (req_body r) ''payload'')) \<and>
      (\<forall>r \<in> set (emitted s (fst (identify w s ident data'))).
         \<exists>p. h ''identify'' p = Some (get_prop (req_body r) ''payload'')))"
proof (intro conjI impI ballI)
  fix r
  assume "r \<in> set (requests (run w (start w ttl st complete) evs))"
  then show "\<exists>t p. req_body r = JObj [(''type'', JStr t), (''payload'', p)] \<and>
        (t = ''event'' \<or> t = ''identify'') \<and> truthy p"
    using run_bodies[OF start_bodies] by blast
next
  fix r
  assume c: "callback w = None"
    and r: "r \<in> set (emitted s (fst (identify w s ident data')))"
  have t: "typeof (Val JUndefined) \<noteq> ''object''" "typeof (Val JUndefined) \<noteq> ''function''"
    by simp_all
  have "r \<in> set (emitted s (fst (track w s (Val JUndefined) JUndefined))) \<union>
            set (emitted s (fst (identify w s ident data')))"
    using r by simp
  from built_payload_fields[OF c t, THEN conjunct1, rule_format, OF this]
    built_payload_types[OF c, THEN conjunct1, rule_format, OF r]
  show "\<exists>p. req_body r = JObj [(''type'', JStr ''identify''), (''payload'', p)] \<and>
              (\<exists>i. i \<noteq> [] \<and> website w = Some i \<and> get_prop p ''website'' = JStr i) \<and>
              get_prop p ''screen'' = JStr (digits (width w) @ ''x'' @ digits (height w)) \<and>
              get_prop p ''language'' = JStr (language w) \<and>
              get_prop p ''title'' = JStr (title s) \<and>
              get_prop p ''hostname'' = JStr (hostname w) \<and>
              get_prop p ''url'' = JStr (currentUrl s) \<and>
              get_prop p ''referrer'' = JStr (currentRef s) \<and>
              get_prop p ''tag'' = tag w \<and>
              fst ` set (spread p) \<subseteq>
                {''website'', ''screen'', ''language'', ''title'', ''hostname'', ''url'',
                 ''referrer'', ''tag'', ''id'', ''name'', ''data''}"
    by auto
next
  fix r
  assume c: "callback w = None"
    and t: "typeof name \<noteq> ''object''" "typeof name \<noteq> ''function''"
    and r: "r \<in> set (emitted s (fst (track w s name data)))"
  have "r \<in> set (emitted s (fst (track w s name data))) \<union>
            set (emitted s (fst (identify w s ident data')))"
    using r by simp
  from built_payload_fields[OF c t, THEN conjunct1, rule_format, OF this]
    built_payload_types[OF c, THEN conjunct2, rule_format, OF t r]
  show "\<exists>p. req_body r = JObj [(''type'', JStr ''event''), (''payload'', p)] \<and>
              (\<exists>i. i \<noteq> [] \<and> website w = Some i \<and> get_prop p ''website'' = JStr i) \<and>
              get_prop p ''screen'' = JStr (digits (width w) @ ''x'' @ digits (height w)) \<and>
              get_prop p ''language'' = JStr (language w) \<and>
              get_prop p ''title'' = JStr (title s) \<and>
              get_prop p ''hostname'' = JStr (hostname w) \<and>
              get_prop p ''url'' = JStr (currentUrl s) \<and>
              get_prop p ''referrer'' = JStr (currentRef s) \<and>
              get_prop p ''tag'' = tag w \<and>
              fst ` set (spread p) \<subseteq>
                {''website'', ''screen'', ''language'', ''title'', ''hostname'', ''url'',
                 ''referrer'', ''tag'', ''id'', ''name'', ''data''}"
    by auto
next
  fix r
  assume c: "callback w = None"
    and r: "r \<in> set (emitted s (fst (track w s (Val (JStr n)) data)))"
  have t: "typeof (Val (JStr n)) \<noteq> ''object''" "typeof (Val (JStr n)) \<noteq> ''function''"
    by simp_all
  from built_payload_fields[OF c t, THEN conjunct2, rule_format, OF r]
  show "get_prop (get_prop (req_body r) ''payload'') ''name'' = JStr n"
    and "get_prop (get_prop (req_body r) ''payload'') ''data'' = data"
    by simp_all
next
  assume "callback w = None" and "typeof (Val v) = ''object''"
  then show "map req_body (emitted s (fst (track w s (Val v) data))) =
        (if trackingDisabled w s then []
         else [JObj [(''type'', JStr ''event''), (''payload'', JObj (spread v))]])"
    by (rule track_object_plain)
next
  assume "callback w = None" and "f (getPayload w s) = Some q"
  then show "map req_body (emitted s (fst (track w s (Fun f) data))) =
        (if trackingDisabled w s \<or> \<not> truthy q then []
         else [JObj [(''type'', JStr ''event''), (''payload'', q)]])"
    by (rule track_function_plain)
next
  fix r
  assume "callback w = Some h" and "r \<in> set (emitted s (fst (track w s name data)))"
  then show "\<exists>p. h ''event'' p = Some (get_prop (req_body r) ''payload'')"
    by (rule track_hooked)
next
  fix r
  assume "callback w = Some h" and "r \<in> set (emitted s (fst (identify w s ident data')))"
  then show "\<exists>p. h ''identify'' p = Some (get_prop (req_body r) ''payload'')"
    by (rule identify_hooked)
qed

theorem payload_fields_witness:
  "callback example_env = None \<and>
   map req_body (emitted example_state
     (fst (track example_env example_state (Val (JStr ''signup''))
        (JObj [(''plan'', JStr ''pro'')])))) =
     [JObj [(''type'', JStr ''event''),
            (''payload'', JObj
               [(''website'', JStr ''site-1''),
                (''screen'', JStr ''1920x1080''),
                (''language'', JStr ''en-US''),
                (''title'', JStr ''Home''),
                (''hostname'', JStr ''example.com''),
                (''url'', JStr ''https://example.com/app?x=1#top''),
                (''referrer'', JStr ''https://search.example.org/''),
                (''tag'', JUndefined),
                (''id'', JUndefined),
                (''name'', JStr ''signup''),
                (''data'', JObj [(''plan'', JStr ''pro'')])])]] \<and>
   map req_body (emitted example_state
     (fst (track example_env example_state (Val (JArr [JStr ''a''])) JUndefined))) =
     [JObj [(''type'', JStr ''event''), (''payload'', JObj [(''0'', JStr ''a'')])]] \<and>
   map req_body (emitted example_state
     (fst (track example_env example_state (Val JNull) JUndefined))) =
     [JObj [(''type'', JStr ''event''), (''payload'', JObj [])]] \<and>
   map req_body (emitted example_state
     (fst (track example_env example_state (Fun echo_fn) JUndefined))) =
     [JObj [(''type'', JStr ''event''),
            (''payload'', getPayload example_env example_state)]]"
proof -
  note cb = example_env_callback
  have en: "\<not> trackingDisabled example_env example_state"
    by (rule example_env_enabled) (simp_all add: example_state_def initState_def)
  have ev: "map req_body (emitted example_state
     (fst (track example_env example_state (Val (JStr ''signup''))
        (JObj [(''plan'', JStr ''pro'')])))) =
     [JObj [(''type'', JStr ''event''),
            (''payload'', JObj
               [(''website'', JStr ''site-1''),
                (''screen'', JStr ''1920x1080''),
                (''language'', JStr ''en-US''),
                (''title'', JStr ''Home''),
                (''hostname'', JStr ''example.com''),
                (''url'', JStr ''https://example.com/app?x=1#top''),
                (''referrer'', JStr ''https://search.example.org/''),
                (''tag'', JUndefined),
                (''id'', JUndefined),
                (''name'', JStr ''signup''),
                (''data'', JObj [(''plan'', JStr ''pro'')])])]]"
    by (simp add: model_defs example_env_def example_state_def digits.simps digit_char_def)
  have g: "truthy (getPayload example_env example_state)"
    by (simp add: getPayload_def)
  have arr: "map req_body (emitted example_state
     (fst (track example_env example_state (Val (JArr [JStr ''a''])) JUndefined))) =
     [JObj [(''type'', JStr ''event''), (''payload'', JObj [(''0'', JStr ''a'')])]]"
    using payload_fields[where w = example_env and s = example_state
        and v = "JArr [JStr ''a'']" and data = JUndefined] cb en
    by (simp add: digits.simps digit_char_def)
  have nul: "map req_body (emitted example_state
     (fst (track example_env example_state (Val JNull) JUndefined))) =
     [JObj [(''type'', JStr ''event''), (''payload'', JObj [])]]"
    using payload_fields[where w = example_env and s = example_state
        and v = JNull and data = JUndefined] cb en
    by simp
  have fn: "map req_body (emitted example_state
     (fst (track example_env example_state (Fun echo_fn) JUndefined))) =
     [JObj [(''type'', JStr ''event''),
            (''payload'', getPayload example_env example_state)]]"
    using payload_fields[where w = example_env and s = example_state
        and f = echo_fn and q = "getPayload example_env example_state"
        and data = JUndefined] cb en g
    by (simp add: echo_fn_def)
  show ?thesis
    using cb ev arr nul fn by simp
qed

subsection \<open>The identity\<close>

lemma step_identity: "\<not> sets_identity e \<Longrightarrow> identity (step w s e) = identity s"
proof (cases e)
  case (Identify i d)
  assume "\<not> sets_identity e"
  then show ?thesis
  proof (cases i)
    case (Val v)
    then show ?thesis
      using Identify \<open>\<not> sets_identity e\<close> by (cases v) (simp_all add: identify_fields)
  next
    case (Fun f)
    then show ?thesis
      using Identify by (simp add: identify_fields)
  qed
qed (simp_all add: track_fields init_fields nav_eq_fields(5)[OF nav_eq_history_call]
      send_resume_fields)

lemma run_identity:
  "\<forall>e \<in> set evs. \<not> sets_identity e \<Longrightarrow> identity (run w s evs) = identity s"
  by (induction evs rule: rev_induct) (simp_all add: run_def step_identity)

lemma start_identity: "identity (start w ttl st complete) = None"
  by (simp add: start_def Let_def init_fields initState_def)

lemma payload_mk_request: "get_prop (req_body (mk_request w s t p)) ''payload'' = p"
  by (simp add: mk_request_def)

lemma track_id:
  assumes "callback w = None" and "typeof name \<noteq> ''object''" and "typeof name \<noteq> ''function''"
    and "r \<in> set (emitted s (fst (track w s name data)))"
  shows "get_prop (get_prop (req_body r) ''payload'') ''id'' =
         (case identity s of None \<Rightarrow> JUndefined
          | Some i \<Rightarrow> if i \<noteq> [] then JStr i else JUndefined)"
proof -
  from assms(4) consider
      (page) "r = mk_request w s ''event'' (getPayload w s)"
    | (named) n where
        "r = mk_request w s ''event''
               (JObj (set_prop (set_prop (spread (getPayload w s)) ''name'' (JStr n))
                  ''data'' data))"
    by (auto simp: track_plain[OF assms(1,2,3)] split: if_splits jsarg.splits jsval.splits)
  then show ?thesis
  proof cases
    case page
    show ?thesis
      unfolding page by (simp add: payload_mk_request getPayload_fields del: get_prop.simps)
  next
    case (named n)
    show ?thesis
      unfolding named
      by (simp add: payload_mk_request get_prop_set_prop spread_getPayload getPayload_fields
          del: get_prop.simps)
  qed
qed

lemma identify_id:
  assumes "callback w = None"
    and "r \<in> set (emitted s (fst (identify w s (Val (JStr i)) data)))"
  shows "\<exists>p. req_body r = JObj [(''type'', JStr ''identify''), (''payload'', p)] \<and>
             get_prop p ''id'' = (if i \<noteq> [] then JStr i else JUndefined)"
proof -
  have "r = mk_request w (s\<lparr>identity := Some i, cache := JStr []\<rparr>) ''identify''
              (JObj (set_prop (spread (getPayload w (s\<lparr>identity := Some i, cache := JStr []\<rparr>)))
                 ''data'' data))"
    using assms(2) by (simp add: identify_plain[OF assms(1)] Let_def split: if_splits)
  then show ?thesis
    by (simp add: mk_request_def get_prop_set_prop spread_getPayload getPayload_fields
        del: get_prop.simps)
qed

lemma identify_any_id:
  assumes "callback w = None"
    and "r \<in> set (emitted s (fst (identify w s ident data)))"
  shows "\<exists>p. req_body r = JObj [(''type'', JStr ''identify''), (''payload'', p)] \<and>
             get_prop p ''id'' =
               (case (case ident of Val (JStr j) \<Rightarrow> Some j | _ \<Rightarrow> identity s) of
                  None \<Rightarrow> JUndefined
                | Some i \<Rightarrow> if i \<noteq> [] then JStr i else JUndefined)"
proof -
  define s2 where
    "s2 = s\<lparr>identity := (case ident of Val (JStr j) \<Rightarrow> Some j | _ \<Rightarrow> identity s),
            cache := JStr []\<rparr>"
  obtain x where "r = mk_request w s2 ''identify''
              (JObj (set_prop (spread (getPayload w s2)) ''data'' x))"
    using assms(2) by (simp add: identify_plain[OF assms(1)] Let_def s2_def split: if_splits)
  then show ?thesis
    by (simp add: mk_request_def get_prop_set_prop spread_getPayload getPayload_fields s2_def
        del: get_prop.simps)
qed

lemma init_id:
  assumes "callback w = None" and "r \<in> set (emitted s (init w s))"
  shows "get_prop (get_prop (req_body r) ''payload'') ''id'' =
         (case identity s of None \<Rightarrow> JUndefined
          | Some i \<Rightarrow> if i \<noteq> [] then JStr i else JUndefined)"
proof (cases "initialized s")
  case True
  then show ?thesis
    using assms(2) by (simp add: init_def emitted_self)
next
  case False
  let ?s1 = "s\<lparr>initialized := True, initTracks := initTracks s + 1\<rparr>"
  have e: "emitted s (init w s) = emitted ?s1 (fst (track w ?s1 (Val JUndefined) JUndefined))"
    using False by (simp add: init_def Let_def emitted_def handleClicks_def handlePathChanges_def)
  have "r \<in> set (emitted ?s1 (fst (track w ?s1 (Val JUndefined) JUndefined)))"
    using assms(2) unfolding e .
  from track_id[OF assms(1) _ _ this] show ?thesis
    by simp
qed

lemma step_id:
  assumes "callback w = None" and "builds_payload e" and "\<not> sets_identity e"
    and "r \<in> set (emitted s (step w s e))"
  shows "get_prop (get_prop (req_body r) ''payload'') ''id'' =
         (case identity s of None \<Rightarrow> JUndefined
          | Some i \<Rightarrow> if i \<noteq> [] then JStr i else JUndefined)"
proof (cases e)
  case (Track n d)
  then show ?thesis
    using assms(2,4) track_id[OF assms(1), of n r s d] by simp
next
  case (Identify i d)
  have "(case i of Val (JStr j) \<Rightarrow> Some j | _ \<Rightarrow> identity s) = identity s"
  proof (cases i)
    case (Val v)
    then show ?thesis
      using assms(3) Identify by (cases v) simp_all
  next
    case (Fun g)
    then show ?thesis by simp
  qed
  then show ?thesis
    using assms(4) Identify identify_any_id[OF assms(1), of r s i d] by auto
next
  case (PushState u)
  then show ?thesis
    using assms(4) by (simp add: emitted_same nav_eq_fields(1)[OF nav_eq_history_call])
next
  case (ReplaceState u)
  then show ?thesis
    using assms(4) by (simp add: emitted_same nav_eq_fields(1)[OF nav_eq_history_call])
next
  case Timeout
  let ?s1 = "s\<lparr>timers := timers s - 1\<rparr>"
  have e: "emitted s x = emitted ?s1 x" for x
    by (rule emitted_shift) simp
  show ?thesis
  proof (cases "timers s = 0")
    case True
    then show ?thesis using Timeout assms(4) by (simp add: emitted_self)
  next
    case False
    then have "r \<in> set (emitted ?s1 (fst (track w ?s1 (Val JUndefined) JUndefined)))"
      using Timeout assms(4) by (simp add: e)
    from track_id[OF assms(1) _ _ this] show ?thesis
      by simp
  qed
next
  case ReadyStateChange
  then show ?thesis
    using assms(4) init_id[OF assms(1), of r s] by (simp add: emitted_self split: if_splits)
next
  case (Response x)
  then show ?thesis
    using assms(4) by (simp add: emitted_same send_resume_requests)
next
  case (SetTitle t)
  then show ?thesis using assms(4) by (simp add: emitted_same)
next
  case (SetItem k v)
  then show ?thesis using assms(4) by (simp add: emitted_same)
qed

lemma start_id:
  assumes "callback w = None" and "r \<in> set (requests (start w ttl st complete))"
  shows "get_prop (get_prop (req_body r) ''payload'') ''id'' = JUndefined"
proof -
  let ?s = "initState w ttl st"
  have i: "identity ?s = None" and q: "requests ?s = []"
    by (simp_all add: initState_def)
  have "r \<in> set (requests (init w ?s))"
    using assms(2) q by (auto simp: start_def Let_def split: if_splits)
  then have "r \<in> set (emitted ?s (init w ?s))"
    by (simp add: emitted_def q)
  from init_id[OF assms(1) this] show ?thesis
    by (simp add: i)
qed

text \<open>
  C7, as stated, fails. After \<open>identify\<close> with a string, a later \<open>track\<close> called with an
  object sends that object, which need not have an \<open>id\<close>. And \<open>identify\<close> called with the
  empty string stores it, but \<open>getPayload\<close> tests the identity for truth, so the \<open>id\<close> of
  that very request is undefined.
\<close>

theorem identity_counterexample:
  "req_body (last (requests (run example_env example_state
     [Identify (Val (JStr ''user-7'')) JUndefined,
      Track (Val (JObj [(''name'', JStr ''x'')])) JUndefined]))) =
     JObj [(''type'', JStr ''event''), (''payload'', JObj [(''name'', JStr ''x'')])] \<and>
   get_prop (JObj [(''name'', JStr ''x'')]) ''id'' = JUndefined \<and>
   length (requests (step example_env example_state (Identify (Val (JStr [])) JUndefined))) = 1 \<and>
   get_prop (get_prop (req_body (last (requests
     (step example_env example_state (Identify (Val (JStr [])) JUndefined))))) ''payload'') ''id'' =
     JUndefined"
  by (simp add: model_defs example_env_def example_state_def)


text \<open>
  C7, amended. With no before-send function configured: the request of \<open>identify\<close> called
  with a string has type \<open>identify\<close>, and its \<open>id\<close> is that string if it is not empty and
  undefined if it is; the string becomes the identity. From any state on, as long as
  \<open>identify\<close> is not called with a string, every request whose payload the tracker builds
  (the page views of \<open>init\<close> and of the history timers, \<open>track\<close> called with an event name
  or with neither object nor function, \<open>identify\<close> called without a string) has as \<open>id\<close> the
  identity of that state if it is a non-empty string, and an undefined \<open>id\<close> if it is the
  empty string or was never set; it is not set when the script starts, and the page view sent
  then has an undefined \<open>id\<close>. The payload of \<open>track\<close> called with a value of type
  \<open>object\<close> is the copy of its own properties, and with a function what the function
  returned, with the \<open>id\<close> these have or lack.
\<close>

theorem identity_in_payload:
  "(callback w = None \<longrightarrow>
      (\<forall>r \<in> set (emitted s (fst (identify w s (Val (JStr i)) data))).
         \<exists>p. req_body r = JObj [(''type'', JStr ''identify''), (''payload'', p)] \<and>
             get_prop p ''id'' = (if i \<noteq> [] then JStr i else JUndefined))) \<and>
   identity (step w s (Identify (Val (JStr i)) data)) = Some i \<and>
   (callback w = None \<longrightarrow> (\<forall>x \<in> set evs. \<not> sets_identity x) \<longrightarrow>
    \<not> sets_identity e \<longrightarrow> builds_payload e \<longrightarrow>
      (\<forall>r \<in> set (emitted (run w s evs) (step w (run w s evs) e)).
         get_prop (get_prop (req_body r) ''payload'') ''id'' =
           (case identity s of
              None \<Rightarrow> JUndefined
            | Some j \<Rightarrow> if j \<noteq> [] then JStr j else JUndefined))) \<and>
   identity (start w ttl st complete) = None \<and>
   (callback w = None \<longrightarrow>
      (\<forall>r \<in> set (requests (start w ttl st complete)).
         get_prop (get_prop (req_body r) ''payload'') ''id'' = JUndefined)) \<and>
   (callback w = None \<longrightarrow> typeof (Val v) = ''object'' \<longrightarrow>
      (\<forall>r \<in> set (emitted s (fst (track w s (Val v) data'))).
         get_prop (req_body r) ''payload'' = JObj (spread v))) \<and>
   (callback w = None \<longrightarrow> f (getPayload w s) = Some q \<longrightarrow>
      (\<forall>r \<in> set (emitted s (fst (track w s (Fun f) data'))).
         get_prop (req_body r) ''payload'' = q))"
proof (intro conjI impI ballI)
  fix r
  assume "callback w = None"
    and "r \<in> set (emitted s (fst (identify w s (Val (JStr i)) data)))"
  then show "\<exists>p. req_body r = JObj [(''type'', JStr ''identify''), (''payload'', p)] \<and>
             get_prop p ''id'' = (if i \<noteq> [] then JStr i else JUndefined)"
    by (rule identify_id)
next
  show "identity (step w s (Identify (Val (JStr i)) data)) = Some i"
    by (simp add: identify_fields)
next
  fix r
  assume c: "callback w = None" and n: "\<forall>x \<in> set evs. \<not> sets_identity x"
    and e: "\<not> sets_identity e" "builds_payload e"
    and r: "r \<in> set (emitted (run w s evs) (step w (run w s evs) e))"
  have "identity (run w s evs) = identity s"
    using n by (rule run_identity)
  then show "get_prop (get_prop (req_body r) ''payload'') ''id'' =
           (case identity s of
              None \<Rightarrow> JUndefined
            | Some j \<Rightarrow> if j \<noteq> [] then JStr j else JUndefined)"
    using step_id[OF c e(2,1) r] by simp
next
  show "identity (start w ttl st complete) = None"
    by (rule start_identity)
next
  fix r
  assume "callback w = None" and "r \<in> set (requests (start w ttl st complete))"
  then show "get_prop (get_prop (req_body r) ''payload'') ''id'' = JUndefined"
    by (rule start_id)
next
  fix r
  assume c: "callback w = None" and t: "typeof (Val v) = ''object''"
    and r: "r \<in> set (emitted s (fst (track w s (Val v) data')))"
  have "req_body r \<in> set (map req_body (emitted s (fst (track w s (Val v) data'))))"
    using r by simp
  then show "get_prop (req_body r) ''payload'' = JObj (spread v)"
    unfolding track_object_plain[OF c t] by (auto split: if_splits)
next
  fix r
  assume c: "callback w = None" and t: "f (getPayload w s) = Some q"
    and r: "r \<in> set (emitted s (fst (track w s (Fun f) data')))"
  have "req_body r \<in> set (map req_body (emitted s (fst (track w s (Fun f) data'))))"
    using r by simp
  then show "get_prop (req_body r) ''payload'' = q"
    unfolding track_function_plain[of w f s q, OF c t] by (auto split: if_splits)
qed

theorem identity_in_payload_witness:
  "callback example_env = None \<and>
   length (emitted
     (step example_env (start example_env ''Home'' Map.empty False)
        (Identify (Val (JStr ''user-7'')) JUndefined))
     (step example_env
        (step example_env (start example_env ''Home'' Map.empty False)
           (Identify (Val (JStr ''user-7'')) JUndefined))
        ReadyStateChange)) = 1 \<and>
   get_prop (get_prop (req_body (last (emitted
     (step example_env (start example_env ''Home'' Map.empty False)
        (Identify (Val (JStr ''user-7'')) JUndefined))
     (step example_env
        (step example_env (start example_env ''Home'' Map.empty False)
           (Identify (Val (JStr ''user-7'')) JUndefined))
        ReadyStateChange)))) ''payload'') ''id'' = JStr ''user-7'' \<and>
   length (emitted
     (run example_env
        (step example_env (start example_env ''Home'' Map.empty False)
           (Identify (Val (JStr ''user-7'')) JUndefined))
        [ReadyStateChange, PushState (Some ''https://example.com/next'')])
     (step example_env
        (run example_env
           (step example_env (start example_env ''Home'' Map.empty False)
              (Identify (Val (JStr ''user-7'')) JUndefined))
           [ReadyStateChange, PushState (Some ''https://example.com/next'')])
        Timeout)) = 1 \<and>
   get_prop (get_prop (req_body (last (emitted
     (run example_env
        (step example_env (start example_env ''Home'' Map.empty False)
           (Identify (Val (JStr ''user-7'')) JUndefined))
        [ReadyStateChange, PushState (Some ''https://example.com/next'')])
     (step example_env
        (run example_env
           (step example_env (start example_env ''Home'' Map.empty False)
              (Identify (Val (JStr ''user-7'')) JUndefined))
           [ReadyStateChange, PushState (Some ''https://example.com/next'')])
        Timeout)))) ''payload'') ''id'' = JStr ''user-7'' \<and>
   length (emitted
     (step example_env example_state (Identify (Val (JStr [])) JUndefined))
     (step example_env
        (step example_env example_state (Identify (Val (JStr [])) JUndefined))
        (Track (Val (JStr ''signup'')) JUndefined))) = 1 \<and>
   get_prop (get_prop (req_body (last (emitted
     (step example_env example_state (Identify (Val (JStr [])) JUndefined))
     (step example_env
        (step example_env example_state (Identify (Val (JStr [])) JUndefined))
        (Track (Val (JStr ''signup'')) JUndefined))))) ''payload'') ''id'' = JUndefined"
proof -
  note cb = example_env_callback
  define s0 where "s0 = start example_env ''Home'' Map.empty False"
  define s1 where "s1 = step example_env s0 (Identify (Val (JStr ''user-7'')) JUndefined)"
  define s2 where "s2 = step example_env example_state (Identify (Val (JStr [])) JUndefined)"
  define evs where "evs = [ReadyStateChange, PushState (Some ''https://example.com/next'')]"
  have i1: "identity s1 = Some ''user-7''"
    using identity_in_payload[where w = example_env and s = s0 and i = "''user-7''"
        and data = JUndefined]
    unfolding s1_def by blast
  have i2: "identity s2 = Some []"
    using identity_in_payload[where w = example_env and s = example_state and i = "[]"
        and data = JUndefined]
    unfolding s2_def by blast
  have la: "length (emitted s1 (step example_env s1 ReadyStateChange)) = 1"
    unfolding s1_def s0_def by (simp add: model_defs example_env_def)
  have lb: "length (emitted (run example_env s1 evs) (step example_env (run example_env s1 evs)
              Timeout)) = 1"
    unfolding s1_def s0_def evs_def by (simp add: model_defs example_env_def example_URL_def)
  have lc: "length (emitted s2 (step example_env s2 (Track (Val (JStr ''signup'')) JUndefined)))
            = 1"
    unfolding s2_def example_state_def by (simp add: model_defs example_env_def)
  have ne: "\<forall>x \<in> set evs. \<not> sets_identity x"
    by (simp add: evs_def)
  have in_last: "last xs \<in> set xs" if "length xs = 1" for xs :: "request list"
    using that by (cases xs) auto
  have a: "get_prop (get_prop (req_body (last (emitted s1 (step example_env s1
              ReadyStateChange)))) ''payload'') ''id'' = JStr ''user-7''"
    using identity_in_payload[where w = example_env and s = s1 and evs = "[]"
        and e = ReadyStateChange] cb in_last[OF la] i1
    by (simp add: run_def)
  have b: "get_prop (get_prop (req_body (last (emitted (run example_env s1 evs)
              (step example_env (run example_env s1 evs) Timeout)))) ''payload'') ''id'' =
           JStr ''user-7''"
    using identity_in_payload[where w = example_env and s = s1 and evs = evs
        and e = Timeout] cb in_last[OF lb] i1 ne
    by simp
  have c: "get_prop (get_prop (req_body (last (emitted s2 (step example_env s2
              (Track (Val (JStr ''signup'')) JUndefined))))) ''payload'') ''id'' = JUndefined"
    using identity_in_payload[where w = example_env and s = s2 and evs = "[]"
        and e = "Track (Val (JStr ''signup'')) JUndefined"] cb in_last[OF lc] i2
    by (simp add: run_def)
  show ?thesis
    using cb la lb lc a b c unfolding s1_def s0_def s2_def evs_def by blast
qed

subsection \<open>Navigation within the page\<close>

lemma hooked_once: "hooked w (Suc 0) s url = handlePush w s url"
  by (cases "handlePush w s url") (auto split: bool.splits)

text \<open>
  C8. A call of \<open>pushState\<close> or \<open>replaceState\<close> issues no request itself, and \<open>handlePush\<close>
  sets a timer for \<open>track\<close> only when the URL it computes differs from the tracked one. When
  the URL argument is non-empty and \<open>new URL\<close> resolves it, the computed URL is the resolved
  one without its query string if \<open>data-exclude-search\<close> is \<open>true\<close> and without its fragment
  if \<open>data-exclude-hash\<close> is \<open>true\<close>; if it equals the tracked URL the timers are left as they
  were, so no page view follows from the call.
\<close>

theorem same_url_not_tracked:
  "(timers (fst (handlePush w s url)) = timers s \<or>
    timers (fst (handlePush w s url)) = timers s + 1 \<and>
    currentUrl (fst (handlePush w s url)) \<noteq> currentUrl s) \<and>
   requests (fst (handlePush w s url)) = requests s \<and>
   requests (history_call w s url) = requests s \<and>
   (\<forall>u p. url = Some u \<longrightarrow> u \<noteq> [] \<longrightarrow> URL_new w u (location_href s) = Some p \<longrightarrow>
      fst (handlePush w s url) =
        s\<lparr>currentRef := currentUrl s,
          currentUrl :=
            url_prefix p @ (if excludeSearch w then [] else url_search p) @
            (if excludeHash w then [] else url_hash p),
          timers :=
            (if url_prefix p @ (if excludeSearch w then [] else url_search p) @
                (if excludeHash w then [] else url_hash p) = currentUrl s
             then timers s else timers s + 1)\<rparr> \<and>
      (pathHooks s = 1 \<longrightarrow>
         history_call w s url = (fst (handlePush w s url))\<lparr>location_href := toString p\<rparr>))"
proof (intro conjI allI impI)
  show "timers (fst (handlePush w s url)) = timers s \<or>
    timers (fst (handlePush w s url)) = timers s + 1 \<and>
    currentUrl (fst (handlePush w s url)) \<noteq> currentUrl s"
    by (auto simp: handlePush_def Let_def split: option.splits)
  show "requests (fst (handlePush w s url)) = requests s"
    by (rule nav_eq_fields(1)[OF nav_eq_handlePush])
  show "requests (history_call w s url) = requests s"
    by (rule nav_eq_fields(1)[OF nav_eq_history_call])
next
  fix u p
  assume a: "url = Some u" "u \<noteq> []" "URL_new w u (location_href s) = Some p"
  show hp: "fst (handlePush w s url) =
        s\<lparr>currentRef := currentUrl s,
          currentUrl :=
            url_prefix p @ (if excludeSearch w then [] else url_search p) @
            (if excludeHash w then [] else url_hash p),
          timers :=
            (if url_prefix p @ (if excludeSearch w then [] else url_search p) @
                (if excludeHash w then [] else url_hash p) = currentUrl s
             then timers s else timers s + 1)\<rparr>"
    using a by (simp add: handlePush_def Let_def toString_def)
  assume h: "pathHooks s = 1"
  have ok: "snd (handlePush w s url)"
    using a by (simp add: handlePush_def Let_def)
  have l: "location_href (fst (handlePush w s url)) = location_href s"
    by (subst hp) simp
  show "history_call w s url = (fst (handlePush w s url))\<lparr>location_href := toString p\<rparr>"
    using a ok l h
    by (cases "handlePush w s url") (simp add: history_call_def hooked_once history_orig_def)
qed

theorem same_url_not_tracked_witness:
  "pathHooks (start example_env ''Home'' Map.empty True) = 1 \<and>
   currentUrl (start example_env ''Home'' Map.empty True) = ''https://example.com/app?x=1#top'' \<and>
   URL_new example_env ''https://example.com/app?x=1#top''
     (location_href (start example_env ''Home'' Map.empty True)) =
     Some \<lparr>url_prefix = ''https://example.com/app'', url_search = ''?x=1'', url_hash = ''#top''\<rparr> \<and>
   timers (history_call example_env (start example_env ''Home'' Map.empty True)
     (Some ''https://example.com/app?x=1#top'')) = 0 \<and>
   requests (history_call example_env (start example_env ''Home'' Map.empty True)
     (Some ''https://example.com/app?x=1#top'')) =
     requests (start example_env ''Home'' Map.empty True)"
proof -
  let ?s = "start example_env ''Home'' Map.empty True"
  let ?p = "\<lparr>url_prefix = ''https://example.com/app'', url_search = ''?x=1'', url_hash = ''#top''\<rparr>"
  have f: "pathHooks ?s = 1" "currentUrl ?s = ''https://example.com/app?x=1#top''"
    "location_href ?s = ''https://example.com/app?x=1#top''" "timers ?s = 0"
    by (simp_all add: model_defs example_env_def)
  have u: "URL_new example_env ''https://example.com/app?x=1#top''
             ''https://example.com/app?x=1#top'' = Some ?p"
    by (simp add: example_env_def example_URL_def)
  have e: "\<not> excludeSearch example_env" "\<not> excludeHash example_env"
    by (simp_all add: excludeSearch_def excludeHash_def attr_def example_env_def)
  have "history_call example_env ?s (Some ''https://example.com/app?x=1#top'') =
        (fst (handlePush example_env ?s (Some ''https://example.com/app?x=1#top'')))
          \<lparr>location_href := toString ?p\<rparr>"
    and "fst (handlePush example_env ?s (Some ''https://example.com/app?x=1#top'')) =
        ?s\<lparr>currentRef := currentUrl ?s,
           currentUrl := ''https://example.com/app?x=1#top'', timers := timers ?s\<rparr>"
    and "requests (history_call example_env ?s (Some ''https://example.com/app?x=1#top'')) =
         requests ?s"
    using same_url_not_tracked[of example_env ?s "Some ''https://example.com/app?x=1#top''"]
      f u e by auto
  then show ?thesis
    using f u by simp
qed

subsection \<open>Initialization\<close>

lemma init_counts:
  "initialized (init w s)"
  "initTracks (init w s) = (if initialized s then initTracks s else initTracks s + 1)"
  "pathHooks (init w s) = (if initialized s then pathHooks s else pathHooks s + 1)"
  "clickListeners (init w s) = (if initialized s then clickListeners s else clickListeners s + 1)"
  by (simp_all add: init_def Let_def track_fields handleClicks_def handlePathChanges_def)

lemma init_idem: "init w (init w s) = init w s"
  using init_counts(1)[of w s] by (subst init_def) simp

lemma page_inv_initState: "page_inv w (initState w ttl st)"
  by (simp add: page_inv_def initState_def)

lemma page_inv_init: "page_inv w s \<Longrightarrow> page_inv w (init w s)"
  by (simp add: page_inv_def init_counts split: if_splits)

lemma page_inv_start: "page_inv w (start w ttl st complete)"
  using page_inv_initState[of w ttl st] page_inv_init[of w "initState w ttl st"]
  by (simp add: start_def Let_def) (simp add: page_inv_def)

lemma history_call_unhooked: "pathHooks s = 0 \<Longrightarrow> history_call w s url = history_orig w s url"
  by (simp add: history_call_def)

lemma history_orig_fields:
  "currentUrl (history_orig w s url) = currentUrl s"
  "currentRef (history_orig w s url) = currentRef s"
  "timers (history_orig w s url) = timers s"
  by (simp_all add: history_orig_def split: option.splits)

lemma page_inv_history_call:
  assumes "page_inv w s"
  shows "page_inv w (history_call w s url)"
proof (cases "initialized s")
  case True
  then show ?thesis
    using assms by (simp add: page_inv_def nav_eq_fields[OF nav_eq_history_call])
next
  case False
  then have "pathHooks s = 0"
    using assms by (simp add: page_inv_def)
  then show ?thesis
    using assms False
    by (simp add: history_call_unhooked page_inv_def history_orig_fields
        nav_eq_fields[OF nav_eq_history_orig])
qed

lemma page_inv_step:
  assumes "page_inv w s"
  shows "page_inv w (step w s e)"
proof (cases e)
  case (Track n d)
  then show ?thesis using assms by (simp add: page_inv_def track_fields)
next
  case (Identify i d)
  then show ?thesis using assms by (simp add: page_inv_def identify_fields)
next
  case (PushState u)
  then show ?thesis using assms by (simp add: page_inv_history_call)
next
  case (ReplaceState u)
  then show ?thesis using assms by (simp add: page_inv_history_call)
next
  case Timeout
  then show ?thesis
    using assms by (cases "initialized s") (simp_all add: page_inv_def track_fields)
next
  case ReadyStateChange
  then show ?thesis using assms by (simp add: page_inv_init)
next
  case (Response r)
  then show ?thesis using assms by (simp add: page_inv_def send_resume_fields)
next
  case (SetTitle t)
  then show ?thesis using assms by (simp add: page_inv_def)
next
  case (SetItem k v)
  then show ?thesis using assms by (simp add: page_inv_def)
qed

lemma page_inv_run: "page_inv w s \<Longrightarrow> page_inv w (run w s evs)"
  by (induction evs rule: rev_induct) (simp_all add: run_def page_inv_step)

lemma page_inv_reachable: "page_inv w (run w (start w ttl st complete) evs)"
  by (rule page_inv_run[OF page_inv_start])

text \<open>
  C10. A second run of \<open>init\<close> changes nothing; and in every state of a page, however many
  \<open>readystatechange\<close> events it has seen, \<open>init\<close> has called \<open>track\<close> at most once, the history
  methods are wrapped at most once and at most one click listener is registered.
\<close>

theorem init_once:
  "init w (init w s) = init w s \<and>
   initTracks (run w (start w ttl st complete) evs) \<le> 1 \<and>
   pathHooks (run w (start w ttl st complete) evs) \<le> 1 \<and>
   clickListeners (run w (start w ttl st complete) evs) \<le> 1 \<and>
   pathHooks (run w (start w ttl st complete) evs) =
     initTracks (run w (start w ttl st complete) evs) \<and>
   clickListeners (run w (start w ttl st complete) evs) =
     initTracks (run w (start w ttl st complete) evs)"
  using page_inv_reachable[of w ttl st complete evs]
  by (simp add: init_idem page_inv_def split: if_splits)


theorem init_once_witness:
  "initTracks (run example_env (start example_env ''Home'' Map.empty False)
     [ReadyStateChange, Track (Val (JStr ''a'')) JUndefined, ReadyStateChange]) = 1 \<and>
   pathHooks (run example_env (start example_env ''Home'' Map.empty False)
     [ReadyStateChange, Track (Val (JStr ''a'')) JUndefined, ReadyStateChange]) = 1 \<and>
   clickListeners (run example_env (start example_env ''Home'' Map.empty False)
     [ReadyStateChange, Track (Val (JStr ''a'')) JUndefined, ReadyStateChange]) = 1 \<and>
   length (requests (run example_env (start example_env ''Home'' Map.empty False)
     [ReadyStateChange, Track (Val (JStr ''a'')) JUndefined, ReadyStateChange])) = 2 \<and>
   init example_env (init example_env example_state) = init example_env example_state"
proof -
  have "initialized (run example_env (start example_env ''Home'' Map.empty False)
     [ReadyStateChange, Track (Val (JStr ''a'')) JUndefined, ReadyStateChange])"
    and "0 < initTracks (run example_env (start example_env ''Home'' Map.empty False)
     [ReadyStateChange, Track (Val (JStr ''a'')) JUndefined, ReadyStateChange])"
    and "length (requests (run example_env (start example_env ''Home'' Map.empty False)
     [ReadyStateChange, Track (Val (JStr ''a'')) JUndefined, ReadyStateChange])) = 2"
    by (simp_all add: model_defs example_env_def)
  then show ?thesis
    using init_once[of example_env example_state "''Home''" Map.empty False
        "[ReadyStateChange, Track (Val (JStr ''a'')) JUndefined, ReadyStateChange]"]
    by simp
qed

lemma getPayload_init_step:
  "getPayload w (s\<lparr>initialized := b, initTracks := n\<rparr>) = getPayload w s"
  by (simp add: getPayload_def)

text \<open>
  C9. \<open>init\<close> does its work either at the end of the script, in the initial state, or at a
  later \<open>readystatechange\<close>, in a state in which it has not run before. In both, the
  \<open>referrer\<close> of the payload is empty when \<open>document.referrer\<close> starts with the origin of the
  page and is \<open>document.referrer\<close> otherwise; and when tracking is not disabled and no
  before-send function is configured, \<open>init\<close> issues one request, of type \<open>event\<close>, with
  this payload.
\<close>

theorem initial_referrer:
  assumes "s = initState w ttl st \<or> s = run w (start w ttl st complete) evs \<and> \<not> initialized s"
  shows "get_prop (getPayload w s) ''referrer'' =
           JStr (if startsWith (referrer w) (origin w) then [] else referrer w) \<and>
         (callback w = None \<longrightarrow> \<not> trackingDisabled w s \<longrightarrow>
            map req_body (emitted s (init w s)) =
              [JObj [(''type'', JStr ''event''), (''payload'', getPayload w s)]])"
proof -
  have inv: "page_inv w s" and ni: "\<not> initialized s"
    using assms page_inv_initState[of w ttl st] page_inv_reachable[of w ttl st complete evs]
    by (auto simp: initState_def)
  have "currentRef s = (if startsWith (referrer w) (origin w) then [] else referrer w)"
    using inv ni by (simp add: page_inv_def)
  then have a: "get_prop (getPayload w s) ''referrer'' =
           JStr (if startsWith (referrer w) (origin w) then [] else referrer w)"
    by (simp add: getPayload_fields)
  let ?s1 = "s\<lparr>initialized := True, initTracks := initTracks s + 1\<rparr>"
  have e: "emitted s (init w s) = emitted ?s1 (fst (track w ?s1 (Val JUndefined) JUndefined))"
    using ni by (simp add: init_def Let_def emitted_def handleClicks_def handlePathChanges_def)
  have d: "trackingDisabled w ?s1 = trackingDisabled w s"
    by (simp add: trackingDisabled_def localStorage_def)
  have b: "map req_body (emitted s (init w s)) =
              [JObj [(''type'', JStr ''event''), (''payload'', getPayload w s)]]"
    if "callback w = None" "\<not> trackingDisabled w s"
    unfolding e using that d
    by (simp add: track_plain getPayload_init_step) (simp add: mk_request_def)
  show ?thesis
    using a b by blast
qed

theorem initial_referrer_witness:
  "startsWith (referrer sameorigin_env) (origin sameorigin_env) \<and>
   get_prop (getPayload sameorigin_env (initState sameorigin_env ''Home'' Map.empty)) ''referrer'' =
     JStr [] \<and>
   \<not> startsWith (referrer example_env) (origin example_env) \<and>
   \<not> initialized (run example_env (start example_env ''Home'' Map.empty False)
        [Track (Val (JStr ''early'')) JUndefined, PushState (Some ''https://example.com/next'')]) \<and>
   get_prop (getPayload example_env
     (run example_env (start example_env ''Home'' Map.empty False)
        [Track (Val (JStr ''early'')) JUndefined, PushState (Some ''https://example.com/next'')]))
     ''referrer'' = JStr ''https://search.example.org/''"
proof -
  have so: "startsWith (referrer sameorigin_env) (origin sameorigin_env)"
    and ne: "\<not> startsWith (referrer example_env) (origin example_env)"
    and r: "referrer example_env = ''https://search.example.org/''"
    by (simp_all add: sameorigin_env_def example_env_def startsWith_def)
  have ni: "\<not> initialized (run example_env (start example_env ''Home'' Map.empty False)
        [Track (Val (JStr ''early'')) JUndefined, PushState (Some ''https://example.com/next'')])"
    by (simp add: model_defs example_env_def example_URL_def)
  show ?thesis
    using so ne ni r
      initial_referrer[of "initState sameorigin_env ''Home'' Map.empty" sameorigin_env
        "''Home''" Map.empty True "[]"]
      initial_referrer[of "run example_env (start example_env ''Home'' Map.empty False)
        [Track (Val (JStr ''early'')) JUndefined, PushState (Some ''https://example.com/next'')]"
        example_env "''Home''" Map.empty False
        "[Track (Val (JStr ''early'')) JUndefined, PushState (Some ''https://example.com/next'')]"]
    by simp
qed

text \<open>
  C5 does not hold of the code: \<open>currentUrl\<close> starts as \<open>location.href\<close> as it is, and only
  \<open>handlePush\<close> applies the exclusions. With both exclusions configured, the page view sent
  on load carries the query string and the fragment; the one that follows a \<open>pushState\<close>
  carries neither.
\<close>

theorem initial_url_not_stripped:
  "excludeSearch strip_env \<and> excludeHash strip_env \<and>
   length (requests (start strip_env ''Home'' Map.empty True)) = 1 \<and>
   get_prop (get_prop (req_body (last (requests (start strip_env ''Home'' Map.empty True))))
     ''payload'') ''url'' = JStr ''https://example.com/app?x=1#top'' \<and>
   length (requests (run strip_env (start strip_env ''Home'' Map.empty True)
     [PushState (Some ''https://example.com/next?y=2#frag''), Timeout])) = 2 \<and>
   get_prop (get_prop (req_body (last (requests
     (run strip_env (start strip_env ''Home'' Map.empty True)
        [PushState (Some ''https://example.com/next?y=2#frag''), Timeout]))))
     ''payload'') ''url'' = JStr ''https://example.com/next''"
  by (simp add: model_defs strip_env_def example_env_def example_URL_def)


end
